theory Spec2Isabelle
  imports Complex_Main "HOL-Library.Word" "HOL-Library.Signed_Division"
begin

section \<open>Machine integers\<close>

text \<open>
  The class stores \<^verbatim>\<open>std::int64_t\<close> fields, modelled as 64-bit words read in two's
  complement by \<open>sint\<close>.  The source does no overflow checking; \<open>+\<close>, \<open>-\<close>, \<open>*\<close> and
  unary minus on words wrap around modulo \<open>2 ^ 64\<close>, which is the result the
  hardware produces where the C++ standard leaves signed overflow undefined.
\<close>

type_synonym integer = "64 word"

definition INT64_MIN :: integer where
  "INT64_MIN = - (2 ^ 63)"

definition INT64_MAX :: integer where
  "INT64_MAX = 2 ^ 63 - 1"

text \<open>A mathematical integer is representable in \<^verbatim>\<open>std::int64_t\<close>.\<close>

definition fits :: "int \<Rightarrow> bool" where
  "fits k \<longleftrightarrow> - (2 ^ 63) \<le> k \<and> k < 2 ^ 63"

text \<open>
  \<^verbatim>\<open>std::abs\<close> on \<^verbatim>\<open>std::int64_t\<close>: the negation of a negative argument, so that
  \<^verbatim>\<open>abs(INT64_MIN)\<close> is \<^verbatim>\<open>INT64_MIN\<close> again.
\<close>

definition abs64 :: "integer \<Rightarrow> integer" where
  "abs64 x = (if x <s 0 then - x else x)"

text \<open>
  \<^verbatim>\<open>std::gcd\<close>: the greatest common divisor of the absolute values, computed
  on the unsigned type and converted back to \<^verbatim>\<open>std::int64_t\<close>, so that the
  divisor \<open>2\<^sup>6\<^sup>3\<close> comes back as \<^verbatim>\<open>INT64_MIN\<close>.  It is \<open>0\<close> for two zero arguments.
\<close>

definition gcd64 :: "integer \<Rightarrow> integer \<Rightarrow> integer" where
  "gcd64 m n = word_of_int (gcd (sint m) (sint n))"

text \<open>The built-in \<^verbatim>\<open>/\<close> of C++ on a non-zero divisor: the quotient truncated towards zero.\<close>

definition quot64 :: "integer \<Rightarrow> integer \<Rightarrow> integer" where
  "quot64 a b = word_of_int (sint a sdiv sint b)"

section \<open>The class \<^verbatim>\<open>rational\<close>\<close>

text \<open>
  The two private fields.  The accessor \<^verbatim>\<open>value()\<close>, which divides in floating
  point, and the stream output are not part of this development.
\<close>

record rational =
  num :: integer
  denom :: integer

text \<open>
  What a call can end with instead of returning: the \<^verbatim>\<open>std::invalid_argument\<close>
  exception with its message, or the trap of an integer division by zero.
\<close>

datatype failure = invalid_argument string | division_trap

text \<open>
  \<^verbatim>\<open>rational::simplify\<close> reads and writes the fields of \<^verbatim>\<open>*this\<close> only, so it is a
  function of these fields.  The divisor is the result of \<^verbatim>\<open>std::gcd\<close>; it is zero
  exactly when both fields are zero, and dividing by it then traps.
\<close>

definition simplify :: "rational \<Rightarrow> failure + rational" where
  "simplify r =
     (let divisor = gcd64 (num r) (denom r) in
      if divisor = 0 then Inl division_trap
      else
        let n = quot64 (num r) divisor;
            d = quot64 (denom r) divisor
        in Inr (if (n <s 0) \<noteq> (d <s 0) then \<lparr>num = - abs64 n, denom = abs64 d\<rparr>
                else if n <s 0 \<and> d <s 0 then \<lparr>num = - n, denom = - d\<rparr>
                else \<lparr>num = n, denom = d\<rparr>))"

subsection \<open>Constructors and accessors\<close>

text \<open>\<^verbatim>\<open>rational(integer value)\<close>.\<close>

definition rational_of_value :: "integer \<Rightarrow> rational" where
  "rational_of_value v = \<lparr>num = v, denom = 1\<rparr>"

text \<open>
  \<^verbatim>\<open>rational(integer numerator, integer denominator)\<close>: a constructor that
  throws yields no object, so the result is either the failure or the value built.
\<close>

definition rational_ctor :: "integer \<Rightarrow> integer \<Rightarrow> failure + rational" where
  "rational_ctor numerator_arg denominator_arg =
     (if denominator_arg = 0 then Inl (invalid_argument ''Denominator must be non-zero.'')
      else simplify \<lparr>num = numerator_arg, denom = denominator_arg\<rparr>)"

text \<open>The copy constructor.\<close>

definition rational_copy :: "rational \<Rightarrow> rational" where
  "rational_copy other = \<lparr>num = num other, denom = denom other\<rparr>"

definition numerator :: "rational \<Rightarrow> integer" where
  "numerator r = num r"

definition denominator :: "rational \<Rightarrow> integer" where
  "denominator r = denom r"

subsection \<open>Unary operators\<close>

definition op_pos :: "rational \<Rightarrow> failure + rational" where
  "op_pos r = rational_ctor (abs64 (num r)) (abs64 (denom r))"

definition op_neg :: "rational \<Rightarrow> failure + rational" where
  "op_neg r = rational_ctor (- num r) (denom r)"

subsection \<open>Member functions that mutate \<^verbatim>\<open>*this\<close>\<close>

text \<open>
  The compound operators write the fields of \<^verbatim>\<open>*this\<close> one statement after the other
  while \<^verbatim>\<open>other\<close> is a reference, possibly to the same object.  Objects live in a
  store indexed by addresses of any type \<open>'a\<close>; a member function takes the
  addresses of \<^verbatim>\<open>*this\<close> and \<^verbatim>\<open>other\<close> and returns how it ended (\<open>None\<close> for a normal
  return) with the store it leaves.
\<close>

type_synonym 'a store = "'a \<Rightarrow> rational"

definition call_simplify :: "'a \<Rightarrow> 'a store \<Rightarrow> failure option \<times> 'a store" where
  "call_simplify this s =
     (case simplify (s this) of
        Inl e \<Rightarrow> (Some e, s)
      | Inr r \<Rightarrow> (None, s(this := r)))"

definition op_assign :: "'a \<Rightarrow> 'a \<Rightarrow> 'a store \<Rightarrow> 'a store" where
  "op_assign this other s =
     (let s1 = s(this := (s this)\<lparr>num := num (s other)\<rparr>)
      in s1(this := (s1 this)\<lparr>denom := denom (s1 other)\<rparr>))"

definition op_add_assign :: "'a \<Rightarrow> 'a \<Rightarrow> 'a store \<Rightarrow> failure option \<times> 'a store" where
  "op_add_assign this other s =
     (let s1 = s(this := (s this)\<lparr>num := num (s this) * denom (s other)
                                           + denom (s this) * num (s other)\<rparr>);
          s2 = s1(this := (s1 this)\<lparr>denom := denom (s1 this) * denom (s1 other)\<rparr>)
      in call_simplify this s2)"

definition op_sub_assign :: "'a \<Rightarrow> 'a \<Rightarrow> 'a store \<Rightarrow> failure option \<times> 'a store" where
  "op_sub_assign this other s =
     (let s1 = s(this := (s this)\<lparr>num := num (s this) * denom (s other)
                                           - denom (s this) * num (s other)\<rparr>);
          s2 = s1(this := (s1 this)\<lparr>denom := denom (s1 this) * denom (s1 other)\<rparr>)
      in call_simplify this s2)"

definition op_mul_assign :: "'a \<Rightarrow> 'a \<Rightarrow> 'a store \<Rightarrow> failure option \<times> 'a store" where
  "op_mul_assign this other s =
     (let s1 = s(this := (s this)\<lparr>num := num (s this) * num (s other)\<rparr>);
          s2 = s1(this := (s1 this)\<lparr>denom := denom (s1 this) * denom (s1 other)\<rparr>)
      in call_simplify this s2)"

definition op_div_assign :: "'a \<Rightarrow> 'a \<Rightarrow> 'a store \<Rightarrow> failure option \<times> 'a store" where
  "op_div_assign this other s =
     (if num (s other) = 0 then (Some (invalid_argument ''Cannot divide by zero.''), s)
      else
        let s1 = s(this := (s this)\<lparr>num := num (s this) * denom (s other)\<rparr>);
            s2 = s1(this := (s1 this)\<lparr>denom := denom (s1 this) * num (s1 other)\<rparr>)
        in call_simplify this s2)"

definition op_pre_inc :: "'a \<Rightarrow> 'a store \<Rightarrow> 'a store" where
  "op_pre_inc this s = s(this := (s this)\<lparr>num := num (s this) + abs64 (denom (s this))\<rparr>)"

definition op_post_inc :: "'a \<Rightarrow> 'a store \<Rightarrow> rational \<times> 'a store" where
  "op_post_inc this s = (let old = rational_copy (s this) in (old, op_pre_inc this s))"

definition op_pre_dec :: "'a \<Rightarrow> 'a store \<Rightarrow> 'a store" where
  "op_pre_dec this s = s(this := (s this)\<lparr>num := num (s this) - abs64 (denom (s this))\<rparr>)"

definition op_post_dec :: "'a \<Rightarrow> 'a store \<Rightarrow> rational \<times> 'a store" where
  "op_post_dec this s = (let old = rational_copy (s this) in (old, op_pre_dec this s))"

subsection \<open>Binary operators\<close>

text \<open>
  A binary operator takes \<^verbatim>\<open>left\<close> by value and \<^verbatim>\<open>right\<close> by reference.  The
  parameter \<^verbatim>\<open>left\<close> is an object of the callee: in the callee's store it lives at
  the address \<open>None\<close>, and the caller's object at \<open>x\<close> is found at \<open>Some x\<close>.  The
  operator returns the failure or the value of \<^verbatim>\<open>left\<close>, with the caller's store as
  the call leaves it.
\<close>

definition enter :: "rational \<Rightarrow> 'a store \<Rightarrow> 'a option store" where
  "enter left s = (\<lambda>p. case p of None \<Rightarrow> rational_copy left | Some x \<Rightarrow> s x)"

definition leave :: "failure option \<times> 'a option store \<Rightarrow> (failure + rational) \<times> 'a store" where
  "leave res =
     (case res of
        (Some e, fr) \<Rightarrow> (Inl e, \<lambda>x. fr (Some x))
      | (None, fr) \<Rightarrow> (Inr (rational_copy (fr None)), \<lambda>x. fr (Some x)))"

definition op_add :: "rational \<Rightarrow> 'a \<Rightarrow> 'a store \<Rightarrow> (failure + rational) \<times> 'a store" where
  "op_add left right s = leave (op_add_assign None (Some right) (enter left s))"

definition op_sub :: "rational \<Rightarrow> 'a \<Rightarrow> 'a store \<Rightarrow> (failure + rational) \<times> 'a store" where
  "op_sub left right s = leave (op_sub_assign None (Some right) (enter left s))"

definition op_mul :: "rational \<Rightarrow> 'a \<Rightarrow> 'a store \<Rightarrow> (failure + rational) \<times> 'a store" where
  "op_mul left right s = leave (op_mul_assign None (Some right) (enter left s))"

definition op_div :: "rational \<Rightarrow> 'a \<Rightarrow> 'a store \<Rightarrow> (failure + rational) \<times> 'a store" where
  "op_div left right s = leave (op_div_assign None (Some right) (enter left s))"

subsection \<open>Comparisons\<close>

text \<open>The comparisons read their two operands and write nothing.\<close>

definition op_eq :: "rational \<Rightarrow> rational \<Rightarrow> bool" where
  "op_eq left right =
     (let left_neg = ((num left <s 0) \<noteq> (denom left <s 0));
          right_neg = ((num right <s 0) \<noteq> (denom right <s 0))
      in if left_neg \<noteq> right_neg then False
         else
           let left_crit = abs64 (num left * denom right);
               right_crit = abs64 (denom left * num right)
           in left_crit = right_crit)"

definition op_ne :: "rational \<Rightarrow> rational \<Rightarrow> bool" where
  "op_ne left right = (\<not> op_eq left right)"

definition op_lt :: "rational \<Rightarrow> rational \<Rightarrow> bool" where
  "op_lt left right =
     (let left_neg = ((num left <s 0) \<noteq> (denom left <s 0));
          right_neg = ((num right <s 0) \<noteq> (denom right <s 0))
      in if left_neg \<noteq> right_neg then left_neg
         else
           let left_crit = abs64 (num left * denom right);
               right_crit = abs64 (denom left * num right)
           in if left_neg then right_crit <s left_crit else left_crit <s right_crit)"

definition op_gt :: "rational \<Rightarrow> rational \<Rightarrow> bool" where
  "op_gt left right = op_lt right left"

definition op_le :: "rational \<Rightarrow> rational \<Rightarrow> bool" where
  "op_le left right = (\<not> op_gt left right)"

definition op_ge :: "rational \<Rightarrow> rational \<Rightarrow> bool" where
  "op_ge left right = (\<not> op_lt left right)"

section \<open>Specification vocabulary\<close>

text \<open>The normalization invariant: positive denominator, lowest terms.\<close>

definition invariant :: "rational \<Rightarrow> bool" where
  "invariant r \<longleftrightarrow> 0 <s denominator r \<and> gcd \<bar>sint (numerator r)\<bar> (sint (denominator r)) = 1"

text \<open>The exact rational number that the two fields stand for.\<close>

definition exact :: "rational \<Rightarrow> rat" where
  "exact r = of_int (sint (num r)) / of_int (sint (denom r))"

text \<open>
  An integer whose negation is representable too: every \<^verbatim>\<open>std::int64_t\<close> value but
  \<^verbatim>\<open>INT64_MIN\<close>.
\<close>

definition abs_fits :: "int \<Rightarrow> bool" where
  "abs_fits k \<longleftrightarrow> \<bar>k\<bar> < 2 ^ 63"

text \<open>
  The integers that each compound operator computes on the way are representable:
  the two cross products, their sum or difference, and the product of the
  denominators.
\<close>

definition add_fits :: "rational \<Rightarrow> rational \<Rightarrow> bool" where
  "add_fits a b \<longleftrightarrow>
     fits (sint (num a) * sint (denom b)) \<and> fits (sint (denom a) * sint (num b)) \<and>
     fits (sint (num a) * sint (denom b) + sint (denom a) * sint (num b)) \<and>
     fits (sint (denom a) * sint (denom b))"

definition sub_fits :: "rational \<Rightarrow> rational \<Rightarrow> bool" where
  "sub_fits a b \<longleftrightarrow>
     fits (sint (num a) * sint (denom b)) \<and> fits (sint (denom a) * sint (num b)) \<and>
     fits (sint (num a) * sint (denom b) - sint (denom a) * sint (num b)) \<and>
     fits (sint (denom a) * sint (denom b))"

definition mul_fits :: "rational \<Rightarrow> rational \<Rightarrow> bool" where
  "mul_fits a b \<longleftrightarrow>
     fits (sint (num a) * sint (num b)) \<and> fits (sint (denom a) * sint (denom b))"

text \<open>
  The two cross products of a division or of a comparison, which are negated or
  passed to \<^verbatim>\<open>std::abs\<close> afterwards.
\<close>

definition cross_fits :: "rational \<Rightarrow> rational \<Rightarrow> bool" where
  "cross_fits a b \<longleftrightarrow>
     abs_fits (sint (num a) * sint (denom b)) \<and> abs_fits (sint (denom a) * sint (num b))"

text \<open>
  The pair that \<^verbatim>\<open>simplify\<close> stores once the fields are divided by the greatest common
  divisor, in terms of the two quotients: both are negated when the second is
  negative.
\<close>

definition signfix :: "int \<Rightarrow> int \<Rightarrow> rational" where
  "signfix n d =
     (if d < 0 then \<lparr>num = - word_of_int n, denom = - word_of_int d\<rparr>
      else \<lparr>num = word_of_int n, denom = word_of_int d\<rparr>)"

text \<open>A store of two objects, at the addresses \<open>False\<close> and \<open>True\<close>.\<close>

definition two :: "rational \<Rightarrow> rational \<Rightarrow> bool store" where
  "two a b = (\<lambda>p. if p then b else a)"


definition same :: "failure + rational \<Rightarrow> failure + rational \<Rightarrow> bool" where
  "same x y = (case x of Inl e \<Rightarrow> False | Inr a \<Rightarrow> (case y of Inl e \<Rightarrow> False | Inr b \<Rightarrow> op_eq a b))"

text \<open>The operands of the addition and subtraction tests, once constructed.\<close>

definition demo :: "bool store" where
  "demo = two \<lparr>num = - 1, denom = 2\<rparr> \<lparr>num = 4, denom = 3\<rparr>"

text \<open>
  The values that an object of the class can hold: what the constructors and the
  operators return or leave in \<^verbatim>\<open>*this\<close>, whatever their arguments, wrap-around
  included.  A call that ends in the division trap ends the program and leaves
  no value behind.
\<close>

inductive reachable :: "rational \<Rightarrow> bool" where
  of_value: "reachable (rational_of_value v)"
| ctor: "rational_ctor n d = Inr r \<Longrightarrow> reachable r"
| copy: "reachable a \<Longrightarrow> reachable (rational_copy a)"
| assign: "reachable (s other) \<Longrightarrow> reachable (op_assign this other (s :: bool store) this)"
| pos: "reachable a \<Longrightarrow> op_pos a = Inr r \<Longrightarrow> reachable r"
| neg: "reachable a \<Longrightarrow> op_neg a = Inr r \<Longrightarrow> reachable r"
| add_assign: "reachable (s this) \<Longrightarrow> reachable (s other) \<Longrightarrow>
    op_add_assign this other (s :: bool store) = (None, s') \<Longrightarrow> reachable (s' this)"
| sub_assign: "reachable (s this) \<Longrightarrow> reachable (s other) \<Longrightarrow>
    op_sub_assign this other (s :: bool store) = (None, s') \<Longrightarrow> reachable (s' this)"
| mul_assign: "reachable (s this) \<Longrightarrow> reachable (s other) \<Longrightarrow>
    op_mul_assign this other (s :: bool store) = (None, s') \<Longrightarrow> reachable (s' this)"
| div_assign: "reachable (s this) \<Longrightarrow> reachable (s other) \<Longrightarrow>
    op_div_assign this other (s :: bool store) = (None, s') \<Longrightarrow> reachable (s' this)"
| add: "reachable a \<Longrightarrow> reachable (s right) \<Longrightarrow>
    op_add a right (s :: bool store) = (Inr r, s') \<Longrightarrow> reachable r"
| sub: "reachable a \<Longrightarrow> reachable (s right) \<Longrightarrow>
    op_sub a right (s :: bool store) = (Inr r, s') \<Longrightarrow> reachable r"
| mul: "reachable a \<Longrightarrow> reachable (s right) \<Longrightarrow>
    op_mul a right (s :: bool store) = (Inr r, s') \<Longrightarrow> reachable r"
| div: "reachable a \<Longrightarrow> reachable (s right) \<Longrightarrow>
    op_div a right (s :: bool store) = (Inr r, s') \<Longrightarrow> reachable r"
| pre_inc: "reachable (s this) \<Longrightarrow> reachable (op_pre_inc this (s :: bool store) this)"
| pre_dec: "reachable (s this) \<Longrightarrow> reachable (op_pre_dec this (s :: bool store) this)"
| post_inc: "reachable (s this) \<Longrightarrow> reachable (snd (op_post_inc this (s :: bool store)) this)"
| post_dec: "reachable (s this) \<Longrightarrow> reachable (snd (op_post_dec this (s :: bool store)) this)"

section \<open>Two's complement arithmetic\<close>

lemma fits_sint: "fits (sint (x :: integer))"
  using sint_ge [of x] sint_lt [of x] by (simp add: fits_def)

lemma sint_word_of_int_fits: "fits k \<Longrightarrow> sint (word_of_int k :: integer) = k"
  by (simp add: fits_def sint_sbintrunc' signed_take_bit_int_eq_self)

lemma sint_mult_fits: "fits (sint a * sint b) \<Longrightarrow> sint (a * b :: integer) = sint a * sint b"
  by (simp add: fits_def sint_word_ariths signed_take_bit_int_eq_self)

lemma sint_add_fits: "fits (sint a + sint b) \<Longrightarrow> sint (a + b :: integer) = sint a + sint b"
  by (simp add: fits_def sint_word_ariths signed_take_bit_int_eq_self)

lemma sint_diff_fits: "fits (sint a - sint b) \<Longrightarrow> sint (a - b :: integer) = sint a - sint b"
  by (simp add: fits_def sint_word_ariths signed_take_bit_int_eq_self)

lemma sint_INT64_MIN: "sint INT64_MIN = - (2 ^ 63)"
  by (simp add: INT64_MIN_def)

lemma sint_eq_MIN_iff: "sint (x :: integer) = - (2 ^ 63) \<longleftrightarrow> x = INT64_MIN"
proof
  assume "sint x = - (2 ^ 63)"
  then have "sint x = sint INT64_MIN" by (simp only: sint_INT64_MIN)
  then show "x = INT64_MIN" by (rule signed_word_eqI)
next
  assume "x = INT64_MIN"
  then show "sint x = - (2 ^ 63)" by (simp only: sint_INT64_MIN)
qed

lemma neg_INT64_MIN: "- INT64_MIN = INT64_MIN"
  by (simp add: INT64_MIN_def)

lemma sint_neg: "x \<noteq> INT64_MIN \<Longrightarrow> sint (- x :: integer) = - sint x"
proof -
  assume "x \<noteq> INT64_MIN"
  then have "sint x \<noteq> - (2 ^ 63)" by (simp only: sint_eq_MIN_iff not_False_eq_True)
  with fits_sint [of x] have "fits (- sint x)" by (simp add: fits_def)
  then show ?thesis
    by (simp add: fits_def sint_word_ariths signed_take_bit_int_eq_self)
qed

lemma abs_sint_neg: "\<bar>sint (- x :: integer)\<bar> = \<bar>sint x\<bar>"
  by (cases "x = INT64_MIN") (simp_all add: neg_INT64_MIN sint_neg)

lemma sless_0_iff: "(x :: integer) <s 0 \<longleftrightarrow> sint x < 0"
  by (simp add: word_sless_alt)

lemma zero_sless_iff: "0 <s (x :: integer) \<longleftrightarrow> 0 < sint x"
  by (simp add: word_sless_alt)

lemma sint_eq_0_iff: "sint (x :: integer) = 0 \<longleftrightarrow> x = 0"
  by (simp add: signed_eq_0_iff)

lemma sdiv_dvd: "l dvd k \<Longrightarrow> k sdiv l = k div (l :: int)"
  by (simp add: signed_divide_int_eq_divide_int)

lemma fits_div_exact:
  assumes "fits x" and "0 < g" and "g dvd x"
  shows "fits (x div g)"
proof -
  from assms(3) obtain q where q: "x = g * q" by (rule dvdE)
  with assms(2) have xq: "x div g = q" by simp
  have bounds: "- (2 ^ 63) \<le> g * q" "g * q < 2 ^ 63"
    using assms(1) q by (simp_all add: fits_def)
  show ?thesis
  proof (cases "0 \<le> q")
    case True
    with assms(2) have "q \<le> g * q" using mult_right_mono [of 1 g q] by simp
    with bounds True show ?thesis unfolding xq fits_def by linarith
  next
    case False
    with assms(2) have "g * q \<le> q" using mult_right_mono_neg [of 1 g q] by simp
    with bounds False show ?thesis unfolding xq fits_def by linarith
  qed
qed

lemma simplify_alt:
  "simplify r =
     (if gcd64 (num r) (denom r) = 0 then Inl division_trap
      else Inr (if quot64 (denom r) (gcd64 (num r) (denom r)) <s 0
                then \<lparr>num = - quot64 (num r) (gcd64 (num r) (denom r)),
                      denom = - quot64 (denom r) (gcd64 (num r) (denom r))\<rparr>
                else \<lparr>num = quot64 (num r) (gcd64 (num r) (denom r)),
                      denom = quot64 (denom r) (gcd64 (num r) (denom r))\<rparr>))"
  by (simp add: simplify_def Let_def abs64_def)

lemma sint_gcd64:
  assumes "gcd (sint m) (sint n) < 2 ^ 63"
  shows "sint (gcd64 m n) = gcd (sint m) (sint n)"
proof -
  have "fits (gcd (sint m) (sint n))"
  proof -
    have "0 \<le> gcd (sint m) (sint n)" by simp
    with assms show ?thesis unfolding fits_def by linarith
  qed
  then show ?thesis by (simp add: gcd64_def sint_word_of_int_fits)
qed

lemma sint_quot64:
  assumes "0 < sint g" and "sint g dvd sint x"
  shows "sint (quot64 x g) = sint x div sint g"
proof -
  have "fits (sint x div sint g)"
    using fits_sint assms by (rule fits_div_exact)
  then show ?thesis
    using assms(2) by (simp add: quot64_def sdiv_dvd sint_word_of_int_fits)
qed

lemma word_of_int_sint64: "word_of_int (sint w) = (w :: integer)"
  by simp

lemma simplify_small_gcd:
  assumes gpos: "0 < gcd (sint (num r)) (sint (denom r))"
    and small: "gcd (sint (num r)) (sint (denom r)) < 2 ^ 63"
  shows "simplify r =
    Inr (signfix (sint (num r) div gcd (sint (num r)) (sint (denom r)))
                 (sint (denom r) div gcd (sint (num r)) (sint (denom r))))"
proof -
  let ?n = "sint (num r)" and ?d = "sint (denom r)"
  let ?g = "gcd ?n ?d"
  let ?G = "gcd64 (num r) (denom r)"
  have sg: "sint ?G = ?g" using small by (rule sint_gcd64)
  have G0: "?G \<noteq> 0"
  proof
    assume "?G = 0"
    then have "sint ?G = 0" by simp
    with sg gpos show False by simp
  qed
  have qn: "sint (quot64 (num r) ?G) = ?n div ?g"
    using sint_quot64 [of ?G "num r"] gpos by (simp add: sg)
  have qd: "sint (quot64 (denom r) ?G) = ?d div ?g"
    using sint_quot64 [of ?G "denom r"] gpos by (simp add: sg)
  have wn: "quot64 (num r) ?G = word_of_int (?n div ?g)"
    using qn by (metis word_of_int_sint64)
  have wd: "quot64 (denom r) ?G = word_of_int (?d div ?g)"
    using qd by (metis word_of_int_sint64)
  have neg: "quot64 (denom r) ?G <s 0 \<longleftrightarrow> ?d div ?g < 0"
    by (simp only: sless_0_iff qd)
  show ?thesis
    unfolding simplify_alt signfix_def using G0 neg wn wd by simp
qed

lemma word_of_int_eq_MIN_iff:
  assumes "fits k"
  shows "(word_of_int k :: integer) = INT64_MIN \<longleftrightarrow> k = - (2 ^ 63)"
  using sint_eq_MIN_iff [of "word_of_int k"] assms by (simp only: sint_word_of_int_fits)

lemma signfix_invariant:
  assumes n: "fits n" and d: "fits d" and g: "gcd n d = 1"
    and d0: "d \<noteq> 0" and dmin: "d \<noteq> - (2 ^ 63)"
  shows "invariant (signfix n d)"
proof (cases "d < 0")
  case True
  from dmin d have "(word_of_int d :: integer) \<noteq> INT64_MIN"
    by (simp only: word_of_int_eq_MIN_iff not_False_eq_True)
  then have sd: "sint (- word_of_int d :: integer) = - d"
    using d by (simp add: sint_neg sint_word_of_int_fits)
  have sn: "\<bar>sint (- word_of_int n :: integer)\<bar> = \<bar>n\<bar>"
    using n by (simp add: abs_sint_neg sint_word_of_int_fits)
  from True g show ?thesis
    by (simp add: invariant_def signfix_def numerator_def denominator_def zero_sless_iff sd sn)
next
  case False
  with d0 have "0 < d" by simp
  with g n d show ?thesis
    by (simp add: invariant_def signfix_def numerator_def denominator_def zero_sless_iff
        sint_word_of_int_fits)
qed

lemma signfix_exact:
  assumes n: "fits n" and d: "fits d"
    and d0: "d \<noteq> 0" and dmin: "d \<noteq> - (2 ^ 63)"
    and nmin: "n \<noteq> - (2 ^ 63) \<or> 0 < d"
  shows "exact (signfix n d) = of_int n / of_int d"
proof (cases "d < 0")
  case True
  from dmin d have "(word_of_int d :: integer) \<noteq> INT64_MIN"
    by (simp only: word_of_int_eq_MIN_iff not_False_eq_True)
  then have sd: "sint (- word_of_int d :: integer) = - d"
    using d by (simp add: sint_neg sint_word_of_int_fits)
  from True nmin have "n \<noteq> - (2 ^ 63)" by simp
  with n have "(word_of_int n :: integer) \<noteq> INT64_MIN"
    by (simp only: word_of_int_eq_MIN_iff not_False_eq_True)
  then have sn: "sint (- word_of_int n :: integer) = - n"
    using n by (simp add: sint_neg sint_word_of_int_fits)
  from True show ?thesis
    by (simp add: exact_def signfix_def sd sn del: of_int_sint)
next
  case False
  with n d show ?thesis
    by (simp add: exact_def signfix_def sint_word_of_int_fits del: of_int_sint)
qed

lemma abs_div_exact_le:
  assumes "0 < g" and "g dvd x"
  shows "\<bar>x div g\<bar> \<le> \<bar>x :: int\<bar>"
proof -
  from assms(2) obtain q where q: "x = g * q" by (rule dvdE)
  with assms(1) have xq: "x div g = q" by simp
  have "1 * \<bar>q\<bar> \<le> g * \<bar>q\<bar>" using assms(1) by (intro mult_right_mono) simp_all
  then show ?thesis using assms(1) by (simp add: xq q abs_mult)
qed

lemma quotient_ratio:
  assumes "g \<noteq> 0" and "g dvd n" and "g dvd d"
  shows "(of_int (n div g) :: rat) / of_int (d div g) = of_int n / of_int d"
proof -
  from assms obtain p q where "n = g * p" and "d = g * q" by (auto elim!: dvdE)
  with assms(1) show ?thesis by simp
qed

lemma reduced_coprime:
  assumes "n \<noteq> 0 \<or> d \<noteq> (0 :: int)"
  shows "gcd (n div gcd n d) (d div gcd n d) = 1"
proof -
  from assms have "coprime (n div gcd n d) (d div gcd n d)" by (rule div_gcd_coprime)
  then show ?thesis by (simp only: coprime_iff_gcd_eq_1)
qed

lemma reduced_denominator:
  assumes "d \<noteq> (0 :: int)"
  shows "d div gcd n d \<noteq> 0"
  using assms by (simp add: dvd_div_eq_0_iff)

lemma simplify_reduces:
  assumes d0: "denom r \<noteq> 0"
    and small: "gcd (sint (num r)) (sint (denom r)) < 2 ^ 63"
    and dmin: "sint (denom r) div gcd (sint (num r)) (sint (denom r)) \<noteq> - (2 ^ 63)"
  shows "\<exists>r'. simplify r = Inr r' \<and> invariant r' \<and>
    (sint (num r) div gcd (sint (num r)) (sint (denom r)) \<noteq> - (2 ^ 63) \<or> 0 <s denom r
       \<longrightarrow> exact r' = exact r)"
proof -
  let ?n = "sint (num r)" and ?d = "sint (denom r)"
  let ?g = "gcd ?n ?d"
  from d0 have dn0: "?d \<noteq> 0" by (simp add: sint_eq_0_iff)
  then have gpos: "0 < ?g" by simp
  have fn: "fits (?n div ?g)" using fits_sint gpos by (rule fits_div_exact) simp
  have fd: "fits (?d div ?g)" using fits_sint gpos by (rule fits_div_exact) simp
  have cop: "gcd (?n div ?g) (?d div ?g) = 1" using dn0 by (intro reduced_coprime disjI2)
  have d1: "?d div ?g \<noteq> 0" using dn0 by (rule reduced_denominator)
  have res: "simplify r = Inr (signfix (?n div ?g) (?d div ?g))"
    using gpos small by (rule simplify_small_gcd)
  have inv: "invariant (signfix (?n div ?g) (?d div ?g))"
    using fn fd cop d1 dmin by (rule signfix_invariant)
  have ex: "exact (signfix (?n div ?g) (?d div ?g)) = exact r"
    if "?n div ?g \<noteq> - (2 ^ 63) \<or> 0 <s denom r"
  proof -
    have "0 < ?d div ?g" if "0 <s denom r"
    proof -
      from that have "0 < ?d" by (simp only: zero_sless_iff)
      then have "?g \<le> ?d" by (intro zdvd_imp_le) simp_all
      with gpos show ?thesis by (simp only: pos_imp_zdiv_pos_iff)
    qed
    with that have "?n div ?g \<noteq> - (2 ^ 63) \<or> 0 < ?d div ?g" by blast
    with fn fd d1 dmin have "exact (signfix (?n div ?g) (?d div ?g))
        = of_int (?n div ?g) / of_int (?d div ?g)"
      by (rule signfix_exact)
    also have "\<dots> = of_int ?n / of_int ?d"
      using gpos by (intro quotient_ratio) simp_all
    finally show ?thesis by (simp only: exact_def)
  qed
  from res inv ex show ?thesis by blast
qed

lemma abs_sint_less:
  assumes "x \<noteq> INT64_MIN"
  shows "\<bar>sint (x :: integer)\<bar> < 2 ^ 63"
proof -
  from assms have "sint x \<noteq> - (2 ^ 63)" by (simp only: sint_eq_MIN_iff not_False_eq_True)
  with fits_sint [of x] show ?thesis unfolding fits_def by linarith
qed

lemma simplify_sound:
  assumes d0: "denom r \<noteq> 0" and dmin: "denom r \<noteq> INT64_MIN"
    and nmin: "num r \<noteq> INT64_MIN \<or> 0 <s denom r"
  shows "\<exists>r'. simplify r = Inr r' \<and> invariant r' \<and> exact r' = exact r"
proof -
  let ?n = "sint (num r)" and ?d = "sint (denom r)"
  let ?g = "gcd ?n ?d"
  from d0 have dn0: "?d \<noteq> 0" by (simp add: sint_eq_0_iff)
  then have gpos: "0 < ?g" by simp
  from dmin have dabs: "\<bar>?d\<bar> < 2 ^ 63" by (rule abs_sint_less)
  have "?g \<le> \<bar>?d\<bar>" using dn0 gcd_le2_int [of "\<bar>?d\<bar>" ?n] by simp
  with dabs have small: "?g < 2 ^ 63" by linarith
  have "\<bar>?d div ?g\<bar> \<le> \<bar>?d\<bar>" using gpos by (rule abs_div_exact_le) simp
  with dabs have d1: "?d div ?g \<noteq> - (2 ^ 63)" by linarith
  have "?n div ?g \<noteq> - (2 ^ 63) \<or> 0 <s denom r"
  proof (cases "num r = INT64_MIN")
    case True
    with nmin show ?thesis by simp
  next
    case False
    then have nabs: "\<bar>?n\<bar> < 2 ^ 63" by (rule abs_sint_less)
    have "\<bar>?n div ?g\<bar> \<le> \<bar>?n\<bar>" using gpos by (rule abs_div_exact_le) simp
    with nabs show ?thesis by linarith
  qed
  with simplify_reduces [OF d0 small d1] show ?thesis by blast
qed

lemma rat_less_cross:
  assumes "0 < b" and "0 < d"
  shows "(of_int a / of_int b < (of_int c / of_int d :: rat)) \<longleftrightarrow> a * d < c * b"
proof -
  have "(of_int a / of_int b < (of_int c / of_int d :: rat))
      \<longleftrightarrow> (of_int (a * d) :: rat) < of_int (c * b)"
    using assms by (simp add: field_simps)
  then show ?thesis by (simp only: of_int_less_iff)
qed

lemma rat_eq_cross:
  assumes "0 < b" and "0 < d"
  shows "(of_int a / of_int b = (of_int c / of_int d :: rat)) \<longleftrightarrow> a * d = c * b"
proof -
  have "(of_int a / of_int b = (of_int c / of_int d :: rat))
      \<longleftrightarrow> (of_int (a * d) :: rat) = of_int (c * b)"
    using assms by (simp add: field_simps)
  then show ?thesis by (simp only: of_int_eq_iff)
qed

lemma lowest_terms_unique:
  assumes eq: "a * d = c * b" and ab: "gcd a b = 1" and cd: "gcd c d = 1"
    and b: "0 < b" and d: "0 < d"
  shows "a = c \<and> b = (d :: int)"
proof -
  have "coprime b a" using ab by (simp add: coprime_iff_gcd_eq_1 gcd.commute)
  moreover have "b dvd a * d" using eq by simp
  ultimately have bd: "b dvd d" by (simp add: coprime_dvd_mult_right_iff)
  have "coprime d c" using cd by (simp add: coprime_iff_gcd_eq_1 gcd.commute)
  moreover have "d dvd c * b" using eq [symmetric] by simp
  ultimately have db: "d dvd b" by (simp add: coprime_dvd_mult_right_iff)
  from bd db b d have "b = d" by (simp add: zdvd_antisym_nonneg)
  with eq d show ?thesis by simp
qed

section \<open>Operators on representable values\<close>

lemma rational_copy_id: "rational_copy r = r"
  by (simp add: rational_copy_def)

lemma update_both: "(r :: rational)\<lparr>num := x, denom := y\<rparr> = \<lparr>num = x, denom = y\<rparr>"
  by (cases r) simp

lemma op_add_assign_eq:
  "op_add_assign this other s =
     call_simplify this (s(this := \<lparr>num = num (s this) * denom (s other) + denom (s this) * num (s other),
                                   denom = denom (s this) * denom (s other)\<rparr>))"
  by (simp add: op_add_assign_def Let_def update_both)

lemma op_sub_assign_eq:
  "op_sub_assign this other s =
     call_simplify this (s(this := \<lparr>num = num (s this) * denom (s other) - denom (s this) * num (s other),
                                   denom = denom (s this) * denom (s other)\<rparr>))"
  by (simp add: op_sub_assign_def Let_def update_both)

lemma op_mul_assign_eq:
  "op_mul_assign this other s =
     call_simplify this (s(this := \<lparr>num = num (s this) * num (s other),
                                   denom = denom (s this) * denom (s other)\<rparr>))"
  by (simp add: op_mul_assign_def Let_def update_both)

lemma op_div_assign_eq:
  assumes "this \<noteq> other" and "num (s other) \<noteq> 0"
  shows "op_div_assign this other s =
     call_simplify this (s(this := \<lparr>num = num (s this) * denom (s other),
                                   denom = denom (s this) * num (s other)\<rparr>))"
  using assms by (simp add: op_div_assign_def Let_def update_both)

lemma op_div_assign_self:
  assumes "num (s this) \<noteq> 0"
  shows "op_div_assign this this s =
     call_simplify this (s(this := \<lparr>num = num (s this) * denom (s this),
                                   denom = denom (s this) * (num (s this) * denom (s this))\<rparr>))"
  using assms by (simp add: op_div_assign_def Let_def update_both)

lemma call_simplify_update:
  "call_simplify this (s(this := r)) =
     (case simplify r of Inl e \<Rightarrow> (Some e, s(this := r)) | Inr r' \<Rightarrow> (None, s(this := r')))"
  by (simp add: call_simplify_def split: sum.splits)

lemma invariant_pos: "invariant r \<Longrightarrow> 0 < sint (denom r)"
  by (simp add: invariant_def denominator_def zero_sless_iff)

lemma invariant_gcd: "invariant r \<Longrightarrow> gcd (sint (num r)) (sint (denom r)) = 1"
  by (simp add: invariant_def denominator_def numerator_def)

lemma abs_fits_imp_fits: "abs_fits k \<Longrightarrow> fits k"
  unfolding abs_fits_def fits_def by linarith

lemma simplify_of_ints:
  assumes n: "sint (num r) = n" and d: "sint (denom r) = d"
    and d0: "d \<noteq> 0" and dmin: "d \<noteq> - (2 ^ 63)" and nmin: "n \<noteq> - (2 ^ 63) \<or> 0 < d"
  shows "\<exists>r'. simplify r = Inr r' \<and> invariant r' \<and> exact r' = of_int n / of_int d"
proof -
  from d d0 have "denom r \<noteq> 0" using sint_eq_0_iff [of "denom r"] by simp
  moreover from d dmin have "denom r \<noteq> INT64_MIN"
    using sint_eq_MIN_iff [of "denom r"] by simp
  moreover from n d nmin have "num r \<noteq> INT64_MIN \<or> 0 <s denom r"
    using sint_eq_MIN_iff [of "num r"] by (auto simp add: zero_sless_iff)
  ultimately have "\<exists>r'. simplify r = Inr r' \<and> invariant r' \<and> exact r' = exact r"
    by (rule simplify_sound)
  then show ?thesis by (simp only: exact_def n d)
qed

lemma simplify_of_ints_pos:
  assumes n: "sint (num r) = n" and d: "sint (denom r) = d" and pos: "0 < d"
  shows "\<exists>r'. simplify r = Inr r' \<and> invariant r' \<and> exact r' = of_int n / of_int d"
proof -
  from pos have "d \<noteq> 0" and "d \<noteq> - (2 ^ 63)" and "n \<noteq> - (2 ^ 63) \<or> 0 < d"
    by simp_all
  with n d show ?thesis by (rule simplify_of_ints)
qed

lemma ratio_add:
  assumes "b \<noteq> 0" and "d \<noteq> 0"
  shows "(of_int (a * d + b * c) :: rat) / of_int (b * d) = of_int a / of_int b + of_int c / of_int d"
  using assms by (simp add: field_simps)

lemma ratio_diff:
  assumes "b \<noteq> 0" and "d \<noteq> 0"
  shows "(of_int (a * d - b * c) :: rat) / of_int (b * d) = of_int a / of_int b - of_int c / of_int d"
  using assms by (simp add: field_simps)

lemma ratio_mult:
  "(of_int (a * c) :: rat) / of_int (b * d) = (of_int a / of_int b) * (of_int c / of_int d)"
  by simp

lemma ratio_divide:
  "(of_int (a * d) :: rat) / of_int (b * c) = (of_int a / of_int b) / (of_int c / of_int d)"
  by simp

lemma add_assign_exact:
  assumes a: "invariant (s this)" and b: "invariant (s other)"
    and f: "add_fits (s this) (s other)"
  shows "\<exists>r. op_add_assign this other s = (None, s(this := r)) \<and> invariant r \<and>
    exact r = exact (s this) + exact (s other)"
proof -
  let ?na = "sint (num (s this))" and ?da = "sint (denom (s this))"
  let ?nb = "sint (num (s other))" and ?db = "sint (denom (s other))"
  let ?r = "\<lparr>num = num (s this) * denom (s other) + denom (s this) * num (s other),
            denom = denom (s this) * denom (s other)\<rparr>"
  from a b have da: "0 < ?da" and db: "0 < ?db" by (simp_all add: invariant_pos)
  from f have n: "sint (num ?r) = ?na * ?db + ?da * ?nb"
    by (simp add: add_fits_def sint_add_fits sint_mult_fits)
  from f have d: "sint (denom ?r) = ?da * ?db"
    by (simp add: add_fits_def sint_mult_fits)
  from da db have pos: "0 < ?da * ?db" by simp
  with n d obtain r' where r': "simplify ?r = Inr r'" "invariant r'"
    "exact r' = of_int (?na * ?db + ?da * ?nb) / of_int (?da * ?db)"
    using simplify_of_ints_pos [of ?r] by blast
  have "of_int (?na * ?db + ?da * ?nb) / of_int (?da * ?db) = exact (s this) + exact (s other)"
    using da db unfolding exact_def by (intro ratio_add) simp_all
  with r'(3) have "exact r' = exact (s this) + exact (s other)" by (rule trans)
  moreover have "op_add_assign this other s = (None, s(this := r'))"
    by (simp add: op_add_assign_eq call_simplify_update r'(1))
  ultimately show ?thesis using r'(2) by blast
qed

lemma sub_assign_exact:
  assumes a: "invariant (s this)" and b: "invariant (s other)"
    and f: "sub_fits (s this) (s other)"
  shows "\<exists>r. op_sub_assign this other s = (None, s(this := r)) \<and> invariant r \<and>
    exact r = exact (s this) - exact (s other)"
proof -
  let ?na = "sint (num (s this))" and ?da = "sint (denom (s this))"
  let ?nb = "sint (num (s other))" and ?db = "sint (denom (s other))"
  let ?r = "\<lparr>num = num (s this) * denom (s other) - denom (s this) * num (s other),
            denom = denom (s this) * denom (s other)\<rparr>"
  from a b have da: "0 < ?da" and db: "0 < ?db" by (simp_all add: invariant_pos)
  from f have n: "sint (num ?r) = ?na * ?db - ?da * ?nb"
    by (simp add: sub_fits_def sint_diff_fits sint_mult_fits)
  from f have d: "sint (denom ?r) = ?da * ?db"
    by (simp add: sub_fits_def sint_mult_fits)
  from da db have pos: "0 < ?da * ?db" by simp
  with n d obtain r' where r': "simplify ?r = Inr r'" "invariant r'"
    "exact r' = of_int (?na * ?db - ?da * ?nb) / of_int (?da * ?db)"
    using simplify_of_ints_pos [of ?r] by blast
  have "of_int (?na * ?db - ?da * ?nb) / of_int (?da * ?db) = exact (s this) - exact (s other)"
    using da db unfolding exact_def by (intro ratio_diff) simp_all
  with r'(3) have "exact r' = exact (s this) - exact (s other)" by (rule trans)
  moreover have "op_sub_assign this other s = (None, s(this := r'))"
    by (simp add: op_sub_assign_eq call_simplify_update r'(1))
  ultimately show ?thesis using r'(2) by blast
qed

lemma mul_assign_exact:
  assumes a: "invariant (s this)" and b: "invariant (s other)"
    and f: "mul_fits (s this) (s other)"
  shows "\<exists>r. op_mul_assign this other s = (None, s(this := r)) \<and> invariant r \<and>
    exact r = exact (s this) * exact (s other)"
proof -
  let ?na = "sint (num (s this))" and ?da = "sint (denom (s this))"
  let ?nb = "sint (num (s other))" and ?db = "sint (denom (s other))"
  let ?r = "\<lparr>num = num (s this) * num (s other), denom = denom (s this) * denom (s other)\<rparr>"
  from a b have da: "0 < ?da" and db: "0 < ?db" by (simp_all add: invariant_pos)
  from f have n: "sint (num ?r) = ?na * ?nb"
    by (simp add: mul_fits_def sint_mult_fits)
  from f have d: "sint (denom ?r) = ?da * ?db"
    by (simp add: mul_fits_def sint_mult_fits)
  from da db have pos: "0 < ?da * ?db" by simp
  with n d obtain r' where r': "simplify ?r = Inr r'" "invariant r'"
    "exact r' = of_int (?na * ?nb) / of_int (?da * ?db)"
    using simplify_of_ints_pos [of ?r] by blast
  have "of_int (?na * ?nb) / of_int (?da * ?db) = exact (s this) * exact (s other)"
    unfolding exact_def by (rule ratio_mult)
  with r'(3) have "exact r' = exact (s this) * exact (s other)" by (rule trans)
  moreover have "op_mul_assign this other s = (None, s(this := r'))"
    by (simp add: op_mul_assign_eq call_simplify_update r'(1))
  ultimately show ?thesis using r'(2) by blast
qed

lemma abs_fits_not_min: "abs_fits k \<Longrightarrow> k \<noteq> - (2 ^ 63)"
  by (auto simp add: abs_fits_def)

lemma div_assign_exact:
  assumes a: "invariant (s this)" and b: "invariant (s other)"
    and distinct: "this \<noteq> other" and nz: "num (s other) \<noteq> 0"
    and f: "cross_fits (s this) (s other)"
  shows "\<exists>r. op_div_assign this other s = (None, s(this := r)) \<and> invariant r \<and>
    exact r = exact (s this) / exact (s other)"
proof -
  let ?na = "sint (num (s this))" and ?da = "sint (denom (s this))"
  let ?nb = "sint (num (s other))" and ?db = "sint (denom (s other))"
  let ?r = "\<lparr>num = num (s this) * denom (s other), denom = denom (s this) * num (s other)\<rparr>"
  from a b have da: "0 < ?da" and db: "0 < ?db" by (simp_all add: invariant_pos)
  from nz have nb: "?nb \<noteq> 0" by (simp add: sint_eq_0_iff)
  from f have fn: "abs_fits (?na * ?db)" and fd: "abs_fits (?da * ?nb)"
    by (simp_all add: cross_fits_def)
  from fn have n: "sint (num ?r) = ?na * ?db"
    by (simp add: abs_fits_imp_fits sint_mult_fits)
  from fd have d: "sint (denom ?r) = ?da * ?nb"
    by (simp add: abs_fits_imp_fits sint_mult_fits)
  from da nb have d0: "?da * ?nb \<noteq> 0" by simp
  from fd have dmin: "?da * ?nb \<noteq> - (2 ^ 63)" by (rule abs_fits_not_min)
  from fn have "?na * ?db \<noteq> - (2 ^ 63)" by (rule abs_fits_not_min)
  then have nmin: "?na * ?db \<noteq> - (2 ^ 63) \<or> 0 < ?da * ?nb" ..
  from n d d0 dmin nmin obtain r' where r': "simplify ?r = Inr r'" "invariant r'"
    "exact r' = of_int (?na * ?db) / of_int (?da * ?nb)"
    using simplify_of_ints [of ?r] by blast
  have "of_int (?na * ?db) / of_int (?da * ?nb) = exact (s this) / exact (s other)"
    unfolding exact_def by (rule ratio_divide)
  with r'(3) have "exact r' = exact (s this) / exact (s other)" by (rule trans)
  moreover have "op_div_assign this other s = (None, s(this := r'))"
    using distinct nz by (simp add: op_div_assign_eq call_simplify_update r'(1))
  ultimately show ?thesis using r'(2) by blast
qed

lemma sint_abs64: "x \<noteq> INT64_MIN \<Longrightarrow> sint (abs64 x) = \<bar>sint x\<bar>"
  by (simp add: abs64_def sless_0_iff sint_neg)

lemma abs64_neg: "abs64 (- x) = abs64 x"
proof (cases "x = INT64_MIN")
  case True
  then show ?thesis by (simp add: neg_INT64_MIN)
next
  case False
  then have "sint (- x) = - sint x" by (rule sint_neg)
  moreover have "sint x = 0 \<Longrightarrow> x = 0" by (simp add: sint_eq_0_iff)
  ultimately show ?thesis by (auto simp add: abs64_def sless_0_iff)
qed

lemma abs64_eq_iff: "abs64 x = abs64 y \<longleftrightarrow> x = y \<or> x = - y"
proof
  assume "abs64 x = abs64 y"
  then show "x = y \<or> x = - y"
    by (auto simp add: abs64_def split: if_splits)
next
  assume "x = y \<or> x = - y"
  then show "abs64 x = abs64 y" by (auto simp add: abs64_neg)
qed

lemma even_uint_iff: "even (uint (d :: integer)) \<longleftrightarrow> even d"
  using even_of_int_iff [of "uint d", where ?'a = integer] by simp

lemma even_sint_iff: "even (sint (d :: integer)) \<longleftrightarrow> even d"
  using even_of_int_iff [of "sint d", where ?'a = integer] by (simp add: word_of_int_sint64)

lemma odd_cancel:
  assumes odd: "odd (d :: integer)" and eq: "d * x = d * y"
  shows "x = y"
proof -
  from eq have "d * (x - y) = 0" by (simp add: algebra_simps)
  then have "uint (d * (x - y)) = 0" by simp
  then have "(uint d * uint (x - y)) mod 2 ^ 64 = 0"
    by (simp add: uint_word_ariths)
  then have dvd: "(2 ^ 64 :: int) dvd uint d * uint (x - y)" by (simp add: mod_eq_0_iff_dvd)
  from odd have "odd (uint d)" by (simp add: even_uint_iff)
  then have "coprime (2 ^ 64 :: int) (uint d)"
    unfolding coprime_power_left_iff coprime_left_2_iff_odd by (rule disjI1)
  with dvd have "(2 ^ 64 :: int) dvd uint (x - y)" by (simp add: coprime_dvd_mult_right_iff)
  moreover have "0 \<le> uint (x - y)" "uint (x - y) < 2 ^ 64"
    using uint_lt2p [of "x - y"] by simp_all
  ultimately have "uint (x - y) = 0"
    by (meson zdvd_not_zless linorder_not_less order_le_less)
  then show ?thesis by (simp add: uint_0_iff)
qed

lemma sint_abs64_mult:
  assumes "abs_fits (sint a * sint b)"
  shows "sint (abs64 (a * b)) = \<bar>sint a * sint b\<bar>"
proof -
  from assms have eq: "sint (a * b) = sint a * sint b"
    by (simp add: abs_fits_imp_fits sint_mult_fits)
  with assms have "sint (a * b) \<noteq> - (2 ^ 63)" by (simp only: abs_fits_not_min not_False_eq_True)
  then have "a * b \<noteq> INT64_MIN" by (simp only: sint_eq_MIN_iff not_False_eq_True)
  then have "sint (abs64 (a * b)) = \<bar>sint (a * b)\<bar>" by (rule sint_abs64)
  then show ?thesis by (simp only: eq)
qed

lemma cross_eq_abs:
  assumes da: "0 < da" and db: "0 < (db :: int)"
  shows "(na < 0) = (nb < 0) \<and> \<bar>na * db\<bar> = \<bar>da * nb\<bar> \<longleftrightarrow> na * db = da * nb"
proof -
  have s1: "na * db < 0 \<longleftrightarrow> na < 0" using db by (simp add: mult_less_0_iff)
  have s2: "da * nb < 0 \<longleftrightarrow> nb < 0" using da by (simp add: mult_less_0_iff)
  show ?thesis
  proof
    assume h: "(na < 0) = (nb < 0) \<and> \<bar>na * db\<bar> = \<bar>da * nb\<bar>"
    with s1 s2 have "(na * db < 0) = (da * nb < 0)" by simp
    with h show "na * db = da * nb" by (simp add: abs_if split: if_splits)
  next
    assume e: "na * db = da * nb"
    with s1 s2 have "(na < 0) = (nb < 0)" by simp
    with e show "(na < 0) = (nb < 0) \<and> \<bar>na * db\<bar> = \<bar>da * nb\<bar>" by simp
  qed
qed

lemma cross_less_abs:
  assumes da: "0 < da" and db: "0 < (db :: int)"
  shows "(if (na < 0) \<noteq> (nb < 0) then na < 0
          else if na < 0 then \<bar>da * nb\<bar> < \<bar>na * db\<bar> else \<bar>na * db\<bar> < \<bar>da * nb\<bar>)
    \<longleftrightarrow> na * db < da * nb"
proof -
  have s1: "na * db < 0 \<longleftrightarrow> na < 0" using db by (simp add: mult_less_0_iff)
  have s2: "da * nb < 0 \<longleftrightarrow> nb < 0" using da by (simp add: mult_less_0_iff)
  show ?thesis
  proof (cases "na < 0"; cases "nb < 0")
    assume "na < 0" "nb < 0"
    with s1 s2 show ?thesis by (simp add: abs_if)
  next
    assume "na < 0" "\<not> nb < 0"
    with s1 s2 show ?thesis by simp
  next
    assume "\<not> na < 0" "nb < 0"
    with s1 s2 show ?thesis by simp
  next
    assume "\<not> na < 0" "\<not> nb < 0"
    with s1 s2 show ?thesis by (simp add: abs_if)
  qed
qed

lemma sign_flag: "invariant r \<Longrightarrow> ((num r <s 0) \<noteq> (denom r <s 0)) = (sint (num r) < 0)"
  using invariant_pos [of r] by (simp add: sless_0_iff)

lemma op_eq_cross:
  assumes a: "invariant a" and b: "invariant b" and f: "cross_fits a b"
  shows "op_eq a b \<longleftrightarrow> sint (num a) * sint (denom b) = sint (denom a) * sint (num b)"
proof -
  let ?na = "sint (num a)" and ?da = "sint (denom a)"
  let ?nb = "sint (num b)" and ?db = "sint (denom b)"
  from a b have da: "0 < ?da" and db: "0 < ?db" by (simp_all add: invariant_pos)
  from f have l: "sint (abs64 (num a * denom b)) = \<bar>?na * ?db\<bar>"
    and r: "sint (abs64 (denom a * num b)) = \<bar>?da * ?nb\<bar>"
    by (simp_all add: cross_fits_def sint_abs64_mult)
  have "op_eq a b \<longleftrightarrow> (?na < 0) = (?nb < 0) \<and> \<bar>?na * ?db\<bar> = \<bar>?da * ?nb\<bar>"
    unfolding op_eq_def Let_def sign_flag [OF a] sign_flag [OF b]
    using l r by (auto simp add: word_eq_iff_signed [where ?'a = int])
  also have "\<dots> \<longleftrightarrow> ?na * ?db = ?da * ?nb"
    using da db by (rule cross_eq_abs)
  finally show ?thesis .
qed

lemma op_lt_cross:
  assumes a: "invariant a" and b: "invariant b" and f: "cross_fits a b"
  shows "op_lt a b \<longleftrightarrow> sint (num a) * sint (denom b) < sint (denom a) * sint (num b)"
proof -
  let ?na = "sint (num a)" and ?da = "sint (denom a)"
  let ?nb = "sint (num b)" and ?db = "sint (denom b)"
  from a b have da: "0 < ?da" and db: "0 < ?db" by (simp_all add: invariant_pos)
  from f have l: "sint (abs64 (num a * denom b)) = \<bar>?na * ?db\<bar>"
    and r: "sint (abs64 (denom a * num b)) = \<bar>?da * ?nb\<bar>"
    by (simp_all add: cross_fits_def sint_abs64_mult)
  have "op_lt a b \<longleftrightarrow>
      (if (?na < 0) \<noteq> (?nb < 0) then ?na < 0
       else if ?na < 0 then \<bar>?da * ?nb\<bar> < \<bar>?na * ?db\<bar> else \<bar>?na * ?db\<bar> < \<bar>?da * ?nb\<bar>)"
  proof -
    have c1: "abs64 (denom a * num b) <s abs64 (num a * denom b)
        \<longleftrightarrow> \<bar>?da * ?nb\<bar> < \<bar>?na * ?db\<bar>"
      by (simp only: word_sless_alt l r)
    have c2: "abs64 (num a * denom b) <s abs64 (denom a * num b)
        \<longleftrightarrow> \<bar>?na * ?db\<bar> < \<bar>?da * ?nb\<bar>"
      by (simp only: word_sless_alt l r)
    show ?thesis
      unfolding op_lt_def Let_def sign_flag [OF a] sign_flag [OF b] c1 c2 ..
  qed
  also have "\<dots> \<longleftrightarrow> ?na * ?db < ?da * ?nb"
    using da db by (rule cross_less_abs)
  finally show ?thesis .
qed

lemma op_eq_refl: "op_eq a a"
  by (simp add: op_eq_def Let_def mult.commute)

lemma op_eq_sym: "op_eq a b \<longleftrightarrow> op_eq b a"
  by (auto simp add: op_eq_def Let_def mult.commute)

lemma cross_chain_denom:
  assumes "na * db = e1 * (da * nb)" and "nb * dc = e2 * (db * nc)"
  shows "db * (na * dc) = db * (e1 * e2 * (da * nc :: integer))"
proof -
  have "db * (na * dc) = (na * db) * dc" by (simp only: mult_ac)
  also have "\<dots> = (e1 * (da * nb)) * dc" by (simp only: assms(1))
  also have "\<dots> = e1 * da * (nb * dc)" by (simp only: mult_ac)
  also have "\<dots> = e1 * da * (e2 * (db * nc))" by (simp only: assms(2))
  also have "\<dots> = db * (e1 * e2 * (da * nc))" by (simp only: mult_ac)
  finally show ?thesis .
qed

lemma cross_chain_num:
  assumes "na * db = e1 * (da * nb)" and "nb * dc = e2 * (db * nc)"
  shows "nb * (na * dc) = nb * (e1 * e2 * (da * nc :: integer))"
proof -
  have "nb * (na * dc) = na * (nb * dc)" by (simp only: mult_ac)
  also have "\<dots> = na * (e2 * (db * nc))" by (simp only: assms(2))
  also have "\<dots> = e2 * ((na * db) * nc)" by (simp only: mult_ac)
  also have "\<dots> = e2 * ((e1 * (da * nb)) * nc)" by (simp only: assms(1))
  also have "\<dots> = nb * (e1 * e2 * (da * nc))" by (simp only: mult_ac)
  finally show ?thesis .
qed

lemma cross_trans_signed:
  assumes odd: "odd nb \<or> odd (db :: integer)"
    and e1: "na * db = e1 * (da * nb)" and e2: "nb * dc = e2 * (db * nc)"
  shows "na * dc = e1 * e2 * (da * nc)"
proof (cases "odd db")
  case True
  then show ?thesis using cross_chain_denom [OF e1 e2] by (rule odd_cancel)
next
  case False
  with odd have "odd nb" by simp
  then show ?thesis using cross_chain_num [OF e1 e2] by (rule odd_cancel)
qed

lemma cross_trans:
  assumes odd: "odd nb \<or> odd (db :: integer)"
    and ab: "na * db = da * nb \<or> na * db = - (da * nb)"
    and bc: "nb * dc = db * nc \<or> nb * dc = - (db * nc)"
  shows "na * dc = da * nc \<or> na * dc = - (da * nc)"
proof -
  from ab have "na * db = 1 * (da * nb) \<or> na * db = (- 1) * (da * nb)" by simp
  moreover from bc have "nb * dc = 1 * (db * nc) \<or> nb * dc = (- 1) * (db * nc)" by simp
  ultimately consider
      "na * dc = 1 * 1 * (da * nc)" | "na * dc = 1 * (- 1) * (da * nc)"
    | "na * dc = (- 1) * 1 * (da * nc)" | "na * dc = (- 1) * (- 1) * (da * nc)"
    using cross_trans_signed [OF odd] by blast
  then show ?thesis by cases simp_all
qed

lemma op_eq_trans:
  assumes odd: "odd (num b) \<or> odd (denom b)"
    and ab: "op_eq a b" and bc: "op_eq b c"
  shows "op_eq a c"
proof -
  from ab have s1: "((num a <s 0) \<noteq> (denom a <s 0)) = ((num b <s 0) \<noteq> (denom b <s 0))"
    and e1: "abs64 (num a * denom b) = abs64 (denom a * num b)"
    by (auto simp add: op_eq_def Let_def split: if_splits)
  from bc have s2: "((num b <s 0) \<noteq> (denom b <s 0)) = ((num c <s 0) \<noteq> (denom c <s 0))"
    and e2: "abs64 (num b * denom c) = abs64 (denom b * num c)"
    by (auto simp add: op_eq_def Let_def split: if_splits)
  from odd e1 e2 have "num a * denom c = denom a * num c \<or> num a * denom c = - (denom a * num c)"
    unfolding abs64_eq_iff by (rule cross_trans)
  then have "abs64 (num a * denom c) = abs64 (denom a * num c)" by (simp only: abs64_eq_iff)
  with s1 s2 show ?thesis by (simp add: op_eq_def Let_def)
qed

lemma invariant_odd:
  assumes "invariant r"
  shows "odd (num r) \<or> odd (denom r)"
proof (rule ccontr)
  assume "\<not> (odd (num r) \<or> odd (denom r))"
  then have "2 dvd sint (num r)" "2 dvd sint (denom r)" by (simp_all add: even_sint_iff)
  then have "2 dvd gcd (sint (num r)) (sint (denom r))" by (rule gcd_greatest)
  with assms show False by (simp add: invariant_gcd)
qed

lemma invariant_unique:
  assumes a: "invariant a" and b: "invariant b" and e: "exact a = exact b"
  shows "a = b"
proof -
  let ?na = "sint (num a)" and ?da = "sint (denom a)"
  let ?nb = "sint (num b)" and ?db = "sint (denom b)"
  from a b have da: "0 < ?da" and db: "0 < ?db" by (simp_all add: invariant_pos)
  from e have "?na * ?db = ?nb * ?da"
    unfolding exact_def using da db by (simp only: rat_eq_cross)
  with a b da db have "?na = ?nb \<and> ?da = ?db"
    by (intro lowest_terms_unique) (simp_all add: invariant_gcd)
  then have "num a = num b" and "denom a = denom b"
    by (simp_all add: word_eq_iff_signed [where ?'a = int])
  then show ?thesis by simp
qed

lemma op_eq_exact:
  assumes a: "invariant a" and b: "invariant b" and f: "cross_fits a b"
  shows "op_eq a b \<longleftrightarrow> exact a = exact b"
proof -
  from a b have da: "0 < sint (denom a)" and db: "0 < sint (denom b)"
    by (simp_all add: invariant_pos)
  have "exact a = exact b \<longleftrightarrow> sint (num a) * sint (denom b) = sint (num b) * sint (denom a)"
    unfolding exact_def using da db by (rule rat_eq_cross)
  with op_eq_cross [OF a b f] show ?thesis by (simp add: mult.commute)
qed

lemma op_lt_exact:
  assumes a: "invariant a" and b: "invariant b" and f: "cross_fits a b"
  shows "op_lt a b \<longleftrightarrow> exact a < exact b"
proof -
  from a b have da: "0 < sint (denom a)" and db: "0 < sint (denom b)"
    by (simp_all add: invariant_pos)
  have "exact a < exact b \<longleftrightarrow> sint (num a) * sint (denom b) < sint (num b) * sint (denom a)"
    unfolding exact_def using da db by (rule rat_less_cross)
  with op_lt_cross [OF a b f] show ?thesis by (simp add: mult.commute)
qed

section \<open>The extreme divisor\<close>

lemma simplify_zero_min:
  "simplify \<lparr>num = 0, denom = INT64_MIN\<rparr> = Inr \<lparr>num = 0, denom = 1\<rparr>"
  by code_simp

lemma simplify_min_min:
  "simplify \<lparr>num = INT64_MIN, denom = INT64_MIN\<rparr> = Inr \<lparr>num = 1, denom = 1\<rparr>"
  by code_simp

lemma simplify_min_zero:
  "simplify \<lparr>num = INT64_MIN, denom = 0\<rparr> = Inr \<lparr>num = 1, denom = 0\<rparr>"
  by code_simp

lemma multiple_of_2_63:
  assumes "(2 ^ 63 :: int) dvd sint (x :: integer)"
  shows "x = 0 \<or> x = INT64_MIN"
proof -
  from assms obtain k where k: "sint x = 2 ^ 63 * k" by (rule dvdE)
  with fits_sint [of x] have "- 1 \<le> k \<and> k < 1" by (simp add: fits_def)
  then have "k = 0 \<or> k = - 1" by auto
  with k have "sint x = 0 \<or> sint x = - (2 ^ 63)" by auto
  then show ?thesis by (simp only: sint_eq_0_iff sint_eq_MIN_iff)
qed

lemma gcd_le_2_63:
  assumes "num r \<noteq> 0 \<or> denom r \<noteq> 0"
  shows "gcd (sint (num r)) (sint (denom r)) \<le> 2 ^ 63"
proof -
  have b: "\<bar>sint x\<bar> \<le> 2 ^ 63" for x :: integer
    using fits_sint [of x] unfolding fits_def by linarith
  from assms show ?thesis
  proof
    assume "num r \<noteq> 0"
    then have "sint (num r) \<noteq> 0" by (simp add: sint_eq_0_iff)
    then have "gcd (sint (num r)) (sint (denom r)) \<le> \<bar>sint (num r)\<bar>"
      using gcd_le1_int [of "\<bar>sint (num r)\<bar>" "sint (denom r)"] by simp
    with b [of "num r"] show ?thesis by linarith
  next
    assume "denom r \<noteq> 0"
    then have "sint (denom r) \<noteq> 0" by (simp add: sint_eq_0_iff)
    then have "gcd (sint (num r)) (sint (denom r)) \<le> \<bar>sint (denom r)\<bar>"
      using gcd_le2_int [of "\<bar>sint (denom r)\<bar>" "sint (num r)"] by simp
    with b [of "denom r"] show ?thesis by linarith
  qed
qed

text \<open>
  The divisor that \<^verbatim>\<open>simplify\<close> uses is never \<open>-1\<close>, so the quotient
  \<^verbatim>\<open>INT64_MIN / -1\<close> does not occur, and it is zero only for the pair \<open>0/0\<close>: on
  every other pair \<^verbatim>\<open>simplify\<close> returns.
\<close>

lemma uint_gcd64: "uint (gcd64 m n) = gcd (sint m) (sint n)"
proof -
  let ?g = "gcd (sint m) (sint n)"
  have "?g \<le> 2 ^ 63"
  proof (cases "m \<noteq> 0 \<or> n \<noteq> 0")
    case True
    then show ?thesis using gcd_le_2_63 [of "\<lparr>num = m, denom = n\<rparr>"] by simp
  next
    case False
    then show ?thesis by simp
  qed
  then have "0 \<le> ?g" and "?g < 2 ^ 64" by simp_all
  then show ?thesis by (simp add: gcd64_def uint_word_of_int take_bit_eq_mod)
qed

lemma gcd64_not_minus_one: "gcd64 m n \<noteq> - 1"
proof
  assume "gcd64 m n = - 1"
  then have "uint (gcd64 m n) = uint (- 1 :: integer)" by simp
  then have "gcd (sint m) (sint n) = 2 ^ 64 - 1" by (simp add: uint_gcd64 unsigned_minus_1_eq_mask mask_eq_exp_minus_1)
  moreover have "gcd (sint m) (sint n) \<le> 2 ^ 63"
  proof (cases "m \<noteq> 0 \<or> n \<noteq> 0")
    case True
    then show ?thesis using gcd_le_2_63 [of "\<lparr>num = m, denom = n\<rparr>"] by simp
  next
    case False
    then show ?thesis by simp
  qed
  ultimately show False by simp
qed

lemma gcd64_eq_0_iff: "gcd64 m n = 0 \<longleftrightarrow> m = 0 \<and> n = 0"
proof -
  have "gcd64 m n = 0 \<longleftrightarrow> uint (gcd64 m n) = 0" by (simp only: uint_0_iff)
  also have "\<dots> \<longleftrightarrow> sint m = 0 \<and> sint n = 0" by (simp add: uint_gcd64)
  also have "\<dots> \<longleftrightarrow> m = 0 \<and> n = 0" by (simp only: sint_eq_0_iff)
  finally show ?thesis .
qed

lemma simplify_traps_iff: "simplify r = Inl division_trap \<longleftrightarrow> num r = 0 \<and> denom r = 0"
  by (simp add: simplify_alt gcd64_eq_0_iff)

lemma simplify_returns: "num r \<noteq> 0 \<or> denom r \<noteq> 0 \<Longrightarrow> \<exists>r'. simplify r = Inr r'"
  by (auto simp add: simplify_alt gcd64_eq_0_iff)

lemma big_gcd_fields:
  assumes nz: "num r \<noteq> 0 \<or> denom r \<noteq> 0"
    and big: "\<not> gcd (sint (num r)) (sint (denom r)) < 2 ^ 63"
  shows "(num r = 0 \<or> num r = INT64_MIN) \<and> (denom r = 0 \<or> denom r = INT64_MIN)"
proof -
  from nz have "gcd (sint (num r)) (sint (denom r)) \<le> 2 ^ 63" by (rule gcd_le_2_63)
  with big have g: "gcd (sint (num r)) (sint (denom r)) = 2 ^ 63" by linarith
  have "gcd (sint (num r)) (sint (denom r)) dvd sint (num r)"
    and "gcd (sint (num r)) (sint (denom r)) dvd sint (denom r)" by simp_all
  then have "(2 ^ 63 :: int) dvd sint (num r)" and "(2 ^ 63 :: int) dvd sint (denom r)"
    by (simp_all only: g)
  then show ?thesis by (simp only: multiple_of_2_63)
qed

lemma record_fields: "(r :: rational) = \<lparr>num = num r, denom = denom r\<rparr>"
  by simp

lemma signfix_zero_min:
  "signfix (sint (0 :: integer) div gcd (sint (0 :: integer)) (sint INT64_MIN))
           (sint INT64_MIN div gcd (sint (0 :: integer)) (sint INT64_MIN))
   = \<lparr>num = 0, denom = 1\<rparr>"
  by code_simp

lemma signfix_min_min:
  "signfix (sint INT64_MIN div gcd (sint INT64_MIN) (sint INT64_MIN))
           (sint INT64_MIN div gcd (sint INT64_MIN) (sint INT64_MIN))
   = \<lparr>num = 1, denom = 1\<rparr>"
  by code_simp

lemma simplify_normal_form:
  assumes d0: "denom r \<noteq> 0"
  shows "simplify r =
    Inr (signfix (sint (num r) div gcd (sint (num r)) (sint (denom r)))
                 (sint (denom r) div gcd (sint (num r)) (sint (denom r))))"
proof (cases "gcd (sint (num r)) (sint (denom r)) < 2 ^ 63")
  case True
  from d0 have "sint (denom r) \<noteq> 0" by (simp add: sint_eq_0_iff)
  then have "0 < gcd (sint (num r)) (sint (denom r))" by simp
  then show ?thesis using True by (rule simplify_small_gcd)
next
  case False
  with d0 have "(num r = 0 \<or> num r = INT64_MIN) \<and> (denom r = 0 \<or> denom r = INT64_MIN)"
    by (intro big_gcd_fields) simp_all
  with d0 have "r = \<lparr>num = 0, denom = INT64_MIN\<rparr> \<or> r = \<lparr>num = INT64_MIN, denom = INT64_MIN\<rparr>"
    using record_fields [of r] by auto
  then show ?thesis
  proof
    assume r: "r = \<lparr>num = 0, denom = INT64_MIN\<rparr>"
    show ?thesis
      unfolding r rational.select_convs simplify_zero_min signfix_zero_min ..
  next
    assume r: "r = \<lparr>num = INT64_MIN, denom = INT64_MIN\<rparr>"
    show ?thesis
      unfolding r rational.select_convs simplify_min_min signfix_min_min ..
  qed
qed

lemma odd_signfix:
  assumes "odd n \<or> odd d"
  shows "odd (num (signfix n d)) \<or> odd (denom (signfix n d))"
  using assms even_of_int_iff [of n, where ?'a = integer] even_of_int_iff [of d, where ?'a = integer]
  by (auto simp add: signfix_def)

lemma coprime_odd:
  assumes "gcd n d = (1 :: int)"
  shows "odd n \<or> odd d"
proof (rule ccontr)
  assume "\<not> (odd n \<or> odd d)"
  then have "2 dvd n" "2 dvd d" by simp_all
  then have "2 dvd gcd n d" by (rule gcd_greatest)
  with assms show False by simp
qed

lemma simplify_odd:
  assumes "simplify r0 = Inr r"
  shows "odd (num r) \<or> odd (denom r)"
proof -
  let ?n = "sint (num r0)" and ?d = "sint (denom r0)"
  have nz: "num r0 \<noteq> 0 \<or> denom r0 \<noteq> 0"
  proof (rule ccontr)
    assume "\<not> (num r0 \<noteq> 0 \<or> denom r0 \<noteq> 0)"
    then have "gcd64 (num r0) (denom r0) = 0" by (simp add: gcd64_def)
    with assms show False by (simp add: simplify_alt)
  qed
  then have n0: "?n \<noteq> 0 \<or> ?d \<noteq> 0" by (simp add: sint_eq_0_iff)
  show ?thesis
  proof (cases "gcd ?n ?d < 2 ^ 63")
    case True
    from n0 have gpos: "0 < gcd ?n ?d" by auto
    from gpos True have "simplify r0 = Inr (signfix (?n div gcd ?n ?d) (?d div gcd ?n ?d))"
      by (rule simplify_small_gcd)
    with assms have r: "r = signfix (?n div gcd ?n ?d) (?d div gcd ?n ?d)" by simp
    have "gcd (?n div gcd ?n ?d) (?d div gcd ?n ?d) = 1"
      using n0 by (rule reduced_coprime)
    then have "odd (?n div gcd ?n ?d) \<or> odd (?d div gcd ?n ?d)" by (rule coprime_odd)
    then show ?thesis unfolding r by (rule odd_signfix)
  next
    case False
    with nz have "(num r0 = 0 \<or> num r0 = INT64_MIN) \<and> (denom r0 = 0 \<or> denom r0 = INT64_MIN)"
      by (rule big_gcd_fields)
    with nz have "r0 = \<lparr>num = 0, denom = INT64_MIN\<rparr> \<or> r0 = \<lparr>num = INT64_MIN, denom = INT64_MIN\<rparr>
        \<or> r0 = \<lparr>num = INT64_MIN, denom = 0\<rparr>"
      using record_fields [of r0] by auto
    with assms show ?thesis
      by (auto simp add: simplify_zero_min simplify_min_min simplify_min_zero)
  qed
qed

section \<open>Values an object can hold\<close>

lemma call_simplify_None:
  assumes "call_simplify this s = (None, s')"
  shows "simplify (s this) = Inr (s' this)"
  using assms by (auto simp add: call_simplify_def split: sum.splits)

lemma leave_Inr:
  assumes "leave res = (Inr r, s')"
  shows "\<exists>fr. res = (None, fr) \<and> r = fr None"
  using assms by (cases res) (auto simp add: leave_def rational_copy_id split: option.splits)

lemma op_assign_this: "op_assign this other s this = s other"
  by (simp add: op_assign_def Let_def update_both)

lemma even_abs64: "even (abs64 x) \<longleftrightarrow> even x"
  by (simp add: abs64_def)

lemma odd_pre_inc:
  assumes "odd (num (s this)) \<or> odd (denom (s this))"
  shows "odd (num (op_pre_inc this s this)) \<or> odd (denom (op_pre_inc this s this))"
  using assms by (auto simp add: op_pre_inc_def even_abs64)

lemma odd_pre_dec:
  assumes "odd (num (s this)) \<or> odd (denom (s this))"
  shows "odd (num (op_pre_dec this s this)) \<or> odd (denom (op_pre_dec this s this))"
  using assms by (auto simp add: op_pre_dec_def even_abs64)

lemma ctor_odd:
  assumes "rational_ctor n d = Inr r"
  shows "odd (num r) \<or> odd (denom r)"
proof -
  from assms have "simplify \<lparr>num = n, denom = d\<rparr> = Inr r"
    by (simp add: rational_ctor_def split: if_splits)
  then show ?thesis by (rule simplify_odd)
qed

lemma call_simplify_odd:
  assumes "call_simplify this t = (None, s')"
  shows "odd (num (s' this)) \<or> odd (denom (s' this))"
proof -
  from assms have "simplify (t this) = Inr (s' this)" by (rule call_simplify_None)
  then show ?thesis by (rule simplify_odd)
qed

lemma div_assign_None:
  assumes "op_div_assign this other s = (None, s')"
  shows "\<exists>t. call_simplify this t = (None, s')"
  using assms by (auto simp add: op_div_assign_def Let_def split: if_splits)

lemma reachable_odd:
  assumes "reachable r"
  shows "odd (num r) \<or> odd (denom r)"
  using assms
proof induction
  case (of_value v)
  show ?case by (simp add: rational_of_value_def)
next
  case (ctor n d r)
  then show ?case by (rule ctor_odd)
next
  case (copy a)
  then show ?case by (simp only: rational_copy_id)
next
  case (assign s other this)
  then show ?case by (simp only: op_assign_this)
next
  case (pos a r)
  then show ?case unfolding op_pos_def by (intro ctor_odd)
next
  case (neg a r)
  then show ?case unfolding op_neg_def by (intro ctor_odd)
next
  case (add_assign s this other s')
  from add_assign(3) show ?case
    unfolding op_add_assign_eq by (rule call_simplify_odd)
next
  case (sub_assign s this other s')
  from sub_assign(3) show ?case
    unfolding op_sub_assign_eq by (rule call_simplify_odd)
next
  case (mul_assign s this other s')
  from mul_assign(3) show ?case
    unfolding op_mul_assign_eq by (rule call_simplify_odd)
next
  case (div_assign s this other s')
  from div_assign(3) obtain t where "call_simplify this t = (None, s')"
    by (auto dest: div_assign_None)
  then show ?case by (rule call_simplify_odd)
next
  case (add a s right r s')
  from add(3) obtain fr where "op_add_assign None (Some right) (enter a s) = (None, fr)" "r = fr None"
    unfolding op_add_def by (auto dest: leave_Inr)
  then show ?case
    unfolding op_add_assign_eq by (simp only: call_simplify_odd)
next
  case (sub a s right r s')
  from sub(3) obtain fr where "op_sub_assign None (Some right) (enter a s) = (None, fr)" "r = fr None"
    unfolding op_sub_def by (auto dest: leave_Inr)
  then show ?case
    unfolding op_sub_assign_eq by (simp only: call_simplify_odd)
next
  case (mul a s right r s')
  from mul(3) obtain fr where "op_mul_assign None (Some right) (enter a s) = (None, fr)" "r = fr None"
    unfolding op_mul_def by (auto dest: leave_Inr)
  then show ?case
    unfolding op_mul_assign_eq by (simp only: call_simplify_odd)
next
  case (div a s right r s')
  from div(3) obtain fr where "op_div_assign None (Some right) (enter a s) = (None, fr)" "r = fr None"
    unfolding op_div_def by (auto dest: leave_Inr)
  then obtain t where "call_simplify None t = (None, fr)" "r = fr None"
    by (auto dest: div_assign_None)
  then show ?case by (simp only: call_simplify_odd)
next
  case (pre_inc s this)
  from pre_inc.IH show ?case by (rule odd_pre_inc)
next
  case (pre_dec s this)
  from pre_dec.IH show ?case by (rule odd_pre_dec)
next
  case (post_inc s this)
  from post_inc.IH show ?case
    unfolding op_post_inc_def Let_def snd_conv by (rule odd_pre_inc)
next
  case (post_dec s this)
  from post_dec.IH show ?case
    unfolding op_post_dec_def Let_def snd_conv by (rule odd_pre_dec)
qed

section \<open>Pairs of the same value\<close>

lemma signfix_minus: "d \<noteq> 0 \<Longrightarrow> signfix (- n) (- d) = signfix n d"
  by (simp add: signfix_def)

lemma reduced_cross:
  fixes n1 d1 n2 d2 :: int
  assumes d1: "d1 \<noteq> 0" and d2: "d2 \<noteq> 0" and eq: "n1 * d2 = n2 * d1"
  shows "(n1 div gcd n1 d1) * (d2 div gcd n2 d2) = (n2 div gcd n2 d2) * (d1 div gcd n1 d1)"
proof -
  let ?g1 = "gcd n1 d1" and ?g2 = "gcd n2 d2"
  from d1 d2 have g: "?g1 \<noteq> 0" "?g2 \<noteq> 0" by simp_all
  have n1: "n1 = ?g1 * (n1 div ?g1)" and dd1: "d1 = ?g1 * (d1 div ?g1)"
    and n2: "n2 = ?g2 * (n2 div ?g2)" and dd2: "d2 = ?g2 * (d2 div ?g2)" by simp_all
  have "(?g1 * ?g2) * ((n1 div ?g1) * (d2 div ?g2)) = (?g1 * (n1 div ?g1)) * (?g2 * (d2 div ?g2))"
    by (simp only: mult_ac)
  also have "\<dots> = n1 * d2" by (simp only: n1 [symmetric] dd2 [symmetric])
  also have "\<dots> = n2 * d1" by (rule eq)
  also have "\<dots> = (?g2 * (n2 div ?g2)) * (?g1 * (d1 div ?g1))"
    by (simp only: n2 [symmetric] dd1 [symmetric])
  also have "\<dots> = (?g1 * ?g2) * ((n2 div ?g2) * (d1 div ?g1))" by (simp only: mult_ac)
  finally show ?thesis using d1 d2 by simp
qed

lemma coprime_cross_unique:
  fixes p1 q1 p2 q2 :: int
  assumes c1: "gcd p1 q1 = 1" and c2: "gcd p2 q2 = 1"
    and q1: "q1 \<noteq> 0" and q2: "q2 \<noteq> 0" and eq: "p1 * q2 = p2 * q1"
  shows "(p2 = p1 \<and> q2 = q1) \<or> (p2 = - p1 \<and> q2 = - q1)"
proof -
  from c1 c2 have "coprime p1 q1" "coprime p2 q2" by (simp_all add: coprime_iff_gcd_eq_1)
  moreover from eq have "\<bar>p1\<bar> * \<bar>q2\<bar> = \<bar>p2\<bar> * \<bar>q1\<bar>" by (simp flip: abs_mult)
  ultimately have "\<bar>p1\<bar> = \<bar>p2\<bar> \<and> \<bar>q2\<bar> = \<bar>q1\<bar>"
    by (simp only: coprime_crossproduct_int)
  then have "q2 = q1 \<or> q2 = - q1" by (auto simp add: abs_eq_iff)
  then show ?thesis
  proof
    assume "q2 = q1"
    with eq q1 show ?thesis by simp
  next
    assume q: "q2 = - q1"
    with eq have "(- p1) * q1 = p2 * q1" by simp
    with q1 have "- p1 = p2" by (metis mult_right_cancel)
    with q show ?thesis by simp
  qed
qed

lemma ctor_normal_form:
  assumes "d \<noteq> 0"
  shows "rational_ctor n d =
    Inr (signfix (sint n div gcd (sint n) (sint d)) (sint d div gcd (sint n) (sint d)))"
  using assms simplify_normal_form [of "\<lparr>num = n, denom = d\<rparr>"]
  by (simp add: rational_ctor_def)

lemma reduced_unique:
  fixes n1 d1 n2 d2 :: int
  assumes d1: "d1 \<noteq> 0" and d2: "d2 \<noteq> 0" and eq: "n1 * d2 = n2 * d1"
  shows "signfix (n2 div gcd n2 d2) (d2 div gcd n2 d2) = signfix (n1 div gcd n1 d1) (d1 div gcd n1 d1)"
proof -
  let ?p1 = "n1 div gcd n1 d1" and ?q1 = "d1 div gcd n1 d1"
  let ?p2 = "n2 div gcd n2 d2" and ?q2 = "d2 div gcd n2 d2"
  have c1: "gcd ?p1 ?q1 = 1" using d1 by (intro reduced_coprime disjI2)
  have c2: "gcd ?p2 ?q2 = 1" using d2 by (intro reduced_coprime disjI2)
  have q1: "?q1 \<noteq> 0" using d1 by (rule reduced_denominator)
  have q2: "?q2 \<noteq> 0" using d2 by (rule reduced_denominator)
  have "?p1 * ?q2 = ?p2 * ?q1" using d1 d2 eq by (rule reduced_cross)
  with c1 c2 q1 q2 have "(?p2 = ?p1 \<and> ?q2 = ?q1) \<or> (?p2 = - ?p1 \<and> ?q2 = - ?q1)"
    by (rule coprime_cross_unique)
  then show ?thesis
  proof
    assume "?p2 = ?p1 \<and> ?q2 = ?q1"
    then show ?thesis by (simp only:)
  next
    assume "?p2 = - ?p1 \<and> ?q2 = - ?q1"
    then have "signfix ?p2 ?q2 = signfix (- ?p1) (- ?q1)" by (simp only:)
    also have "\<dots> = signfix ?p1 ?q1" using q1 by (rule signfix_minus)
    finally show ?thesis .
  qed
qed

lemma ctor_same_value:
  assumes d1: "d1 \<noteq> 0" and d2: "d2 \<noteq> 0"
    and eq: "sint n1 * sint d2 = sint n2 * sint d1"
  shows "\<exists>r. rational_ctor n1 d1 = Inr r \<and> rational_ctor n2 d2 = Inr r"
proof -
  from d1 d2 have s1: "sint d1 \<noteq> 0" and s2: "sint d2 \<noteq> 0" by (simp_all add: sint_eq_0_iff)
  from s1 s2 eq have "signfix (sint n2 div gcd (sint n2) (sint d2)) (sint d2 div gcd (sint n2) (sint d2))
      = signfix (sint n1 div gcd (sint n1) (sint d1)) (sint d1 div gcd (sint n1) (sint d1))"
    by (rule reduced_unique)
  then have "rational_ctor n2 d2 = rational_ctor n1 d1"
    by (simp only: ctor_normal_form [OF d1] ctor_normal_form [OF d2])
  then show ?thesis by (simp only: ctor_normal_form [OF d1]) blast
qed

section \<open>Constructors, increments and unary operators\<close>

lemma reduced_min:
  fixes n d :: int
  assumes f: "fits d" and d0: "d \<noteq> 0" and q: "d div gcd n d = - (2 ^ 63)"
  shows "d = - (2 ^ 63) \<and> odd n"
proof -
  let ?g = "gcd n d"
  from d0 have gpos: "0 < ?g" by simp
  have "d = ?g * (d div ?g)" by simp
  with q have d: "d = ?g * (- (2 ^ 63))" by (simp only:)
  have "?g \<le> 1"
  proof (rule ccontr)
    assume "\<not> ?g \<le> 1"
    then have "2 \<le> ?g" by simp
    then have "?g * (- (2 ^ 63)) \<le> 2 * (- (2 ^ 63))" by (intro mult_right_mono_neg) simp_all
    with d f show False by (simp add: fits_def)
  qed
  with gpos have g1: "?g = 1" by linarith
  with d have dm: "d = - (2 ^ 63)" by simp
  have "odd n"
  proof
    assume "even n"
    moreover have "even d" unfolding dm by simp
    ultimately have "2 dvd ?g" by (rule gcd_greatest)
    with g1 show False by simp
  qed
  with dm show ?thesis ..
qed

lemma ctor_invariant:
  assumes d0: "d \<noteq> 0" and ok: "\<not> (d = INT64_MIN \<and> odd (sint n))"
  shows "\<exists>r. rational_ctor n d = Inr r \<and> invariant r"
proof -
  let ?g = "gcd (sint n) (sint d)"
  from d0 have s0: "sint d \<noteq> 0" by (simp add: sint_eq_0_iff)
  then have gpos: "0 < ?g" by simp
  have fn: "fits (sint n div ?g)" using fits_sint gpos by (rule fits_div_exact) simp
  have fd: "fits (sint d div ?g)" using fits_sint gpos by (rule fits_div_exact) simp
  have cop: "gcd (sint n div ?g) (sint d div ?g) = 1" using s0 by (intro reduced_coprime disjI2)
  have q0: "sint d div ?g \<noteq> 0" using s0 by (rule reduced_denominator)
  have qmin: "sint d div ?g \<noteq> - (2 ^ 63)"
  proof
    assume "sint d div ?g = - (2 ^ 63)"
    with fits_sint s0 have "sint d = - (2 ^ 63) \<and> odd (sint n)" by (rule reduced_min)
    then have a: "sint d = - (2 ^ 63)" and b: "odd (sint n)" by blast+
    from a have "d = INT64_MIN" by (simp only: sint_eq_MIN_iff)
    with b ok show False by blast
  qed
  from fn fd cop q0 qmin have "invariant (signfix (sint n div ?g) (sint d div ?g))"
    by (rule signfix_invariant)
  then show ?thesis by (simp only: ctor_normal_form [OF d0]) blast
qed

lemma signfix_zero:
  assumes "d \<noteq> (0 :: int)"
  shows "signfix (0 div gcd 0 d) (d div gcd 0 d) = \<lparr>num = 0, denom = 1\<rparr>"
proof (cases "d < 0")
  case True
  then have nz: "- d \<noteq> 0" by simp
  have "d div - d = ((- d) * (- 1)) div (- d)" by simp
  also have "\<dots> = - 1" using nz by (rule nonzero_mult_div_cancel_left)
  finally have "d div \<bar>d\<bar> = - 1" using True by (simp add: abs_if)
  then show ?thesis by (simp add: signfix_def)
next
  case False
  with assms have "d div \<bar>d\<bar> = 1" by (simp add: abs_if)
  then show ?thesis by (simp add: signfix_def)
qed

lemma ctor_zero:
  assumes "d \<noteq> 0"
  shows "rational_ctor 0 d = Inr \<lparr>num = 0, denom = 1\<rparr>"
proof -
  from assms have "sint d \<noteq> 0" by (simp add: sint_eq_0_iff)
  then have "signfix (0 div gcd 0 (sint d)) (sint d div gcd 0 (sint d)) = \<lparr>num = 0, denom = 1\<rparr>"
    by (rule signfix_zero)
  then show ?thesis by (simp only: ctor_normal_form [OF assms] sint_0)
qed

lemma simplify_fixed:
  assumes "invariant r"
  shows "simplify r = Inr r"
proof -
  from assms have pos: "0 < sint (denom r)" and g: "gcd (sint (num r)) (sint (denom r)) = 1"
    by (simp_all add: invariant_pos invariant_gcd)
  from pos have "denom r \<noteq> 0" by auto
  then have "simplify r = Inr (signfix (sint (num r) div gcd (sint (num r)) (sint (denom r)))
      (sint (denom r) div gcd (sint (num r)) (sint (denom r))))"
    by (rule simplify_normal_form)
  then have "simplify r = Inr (signfix (sint (num r) div 1) (sint (denom r) div 1))"
    by (simp only: g)
  also have "signfix (sint (num r) div 1) (sint (denom r) div 1) = r"
    using pos by (simp add: signfix_def word_of_int_sint64)
  finally show ?thesis .
qed

lemma abs64_pos: "0 < sint x \<Longrightarrow> abs64 x = x"
  by (simp add: abs64_def sless_0_iff)

lemma op_pre_inc_this:
  "op_pre_inc this s this = \<lparr>num = num (s this) + abs64 (denom (s this)), denom = denom (s this)\<rparr>"
  by (cases "s this") (simp add: op_pre_inc_def)

lemma op_pre_dec_this:
  "op_pre_dec this s this = \<lparr>num = num (s this) - abs64 (denom (s this)), denom = denom (s this)\<rparr>"
  by (cases "s this") (simp add: op_pre_dec_def)

lemma ratio_succ:
  assumes "d \<noteq> 0"
  shows "(of_int (n + d) :: rat) / of_int d = of_int n / of_int d + 1"
  using assms by (simp add: add_divide_distrib)

lemma ratio_pred:
  assumes "d \<noteq> 0"
  shows "(of_int (n - d) :: rat) / of_int d = of_int n / of_int d - 1"
  using assms by (simp add: diff_divide_distrib)

lemma pre_inc_exact:
  assumes inv: "invariant (s this)"
    and f: "fits (sint (num (s this)) + sint (denom (s this)))"
  shows "invariant (op_pre_inc this s this) \<and> exact (op_pre_inc this s this) = exact (s this) + 1"
proof -
  let ?n = "sint (num (s this))" and ?d = "sint (denom (s this))"
  let ?r = "\<lparr>num = num (s this) + denom (s this), denom = denom (s this)\<rparr>"
  from inv have pos: "0 < ?d" and g: "gcd ?n ?d = 1" by (simp_all add: invariant_pos invariant_gcd)
  from pos have r: "op_pre_inc this s this = ?r" by (simp only: op_pre_inc_this abs64_pos)
  from f have n: "sint (num (s this) + denom (s this)) = ?n + ?d" by (rule sint_add_fits)
  have "gcd (?n + ?d) ?d = 1" using g by simp
  with pos n have "invariant ?r"
    by (simp add: invariant_def numerator_def denominator_def zero_sless_iff)
  moreover have "exact ?r = exact (s this) + 1"
    using pos unfolding exact_def rational.select_convs n by (intro ratio_succ) simp
  ultimately show ?thesis by (simp only: r)
qed

lemma pre_dec_exact:
  assumes inv: "invariant (s this)"
    and f: "fits (sint (num (s this)) - sint (denom (s this)))"
  shows "invariant (op_pre_dec this s this) \<and> exact (op_pre_dec this s this) = exact (s this) - 1"
proof -
  let ?n = "sint (num (s this))" and ?d = "sint (denom (s this))"
  let ?r = "\<lparr>num = num (s this) - denom (s this), denom = denom (s this)\<rparr>"
  from inv have pos: "0 < ?d" and g: "gcd ?n ?d = 1" by (simp_all add: invariant_pos invariant_gcd)
  from pos have r: "op_pre_dec this s this = ?r" by (simp only: op_pre_dec_this abs64_pos)
  from f have n: "sint (num (s this) - denom (s this)) = ?n - ?d" by (rule sint_diff_fits)
  have "gcd (?n - ?d) ?d = 1" using g by (simp add: gcd_diff1)
  with pos n have "invariant ?r"
    by (simp add: invariant_def numerator_def denominator_def zero_sless_iff)
  moreover have "exact ?r = exact (s this) - 1"
    using pos unfolding exact_def rational.select_convs n by (intro ratio_pred) simp
  ultimately show ?thesis by (simp only: r)
qed

lemma abs_sint_abs64: "\<bar>sint (abs64 x)\<bar> = \<bar>sint x\<bar>"
  by (simp add: abs64_def abs_sint_neg)

lemma op_pos_result:
  assumes inv: "invariant a"
  shows "op_pos a = Inr \<lparr>num = abs64 (num a), denom = denom a\<rparr> \<and>
    invariant \<lparr>num = abs64 (num a), denom = denom a\<rparr>"
proof -
  let ?r = "\<lparr>num = abs64 (num a), denom = denom a\<rparr>"
  from inv have pos: "0 < sint (denom a)" and g: "gcd (sint (num a)) (sint (denom a)) = 1"
    by (simp_all add: invariant_pos invariant_gcd)
  from pos have d0: "denom a \<noteq> 0" by auto
  have "gcd \<bar>sint (abs64 (num a))\<bar> (sint (denom a)) = 1"
    using g by (simp only: abs_sint_abs64 gcd_abs1_int)
  with pos have r: "invariant ?r"
    by (simp add: invariant_def numerator_def denominator_def zero_sless_iff)
  then have "simplify ?r = Inr ?r" by (rule simplify_fixed)
  with pos d0 have "op_pos a = Inr ?r" by (simp add: op_pos_def rational_ctor_def abs64_pos)
  with r show ?thesis by simp
qed

lemma op_neg_result:
  assumes inv: "invariant a"
  shows "op_neg a = Inr \<lparr>num = - num a, denom = denom a\<rparr> \<and>
    invariant \<lparr>num = - num a, denom = denom a\<rparr>"
proof -
  let ?r = "\<lparr>num = - num a, denom = denom a\<rparr>"
  from inv have pos: "0 < sint (denom a)" and g: "gcd (sint (num a)) (sint (denom a)) = 1"
    by (simp_all add: invariant_pos invariant_gcd)
  from pos have d0: "denom a \<noteq> 0" by auto
  have "gcd \<bar>sint (- num a)\<bar> (sint (denom a)) = 1"
    using g by (simp only: abs_sint_neg gcd_abs1_int)
  with pos have r: "invariant ?r"
    by (simp add: invariant_def numerator_def denominator_def zero_sless_iff)
  then have "simplify ?r = Inr ?r" by (rule simplify_fixed)
  with d0 have "op_neg a = Inr ?r" by (simp add: op_neg_def rational_ctor_def)
  with r show ?thesis by simp
qed

lemma ratio_abs:
  assumes "0 < (d :: int)"
  shows "(of_int \<bar>n\<bar> :: rat) / of_int d = \<bar>of_int n / of_int d\<bar>"
  using assms by simp

lemma unary_exact:
  assumes inv: "invariant a" and nmin: "num a \<noteq> INT64_MIN"
  shows "exact \<lparr>num = abs64 (num a), denom = denom a\<rparr> = \<bar>exact a\<bar> \<and>
    exact \<lparr>num = - num a, denom = denom a\<rparr> = - exact a"
proof -
  from inv have pos: "0 < sint (denom a)" by (rule invariant_pos)
  from nmin have a: "sint (abs64 (num a)) = \<bar>sint (num a)\<bar>" by (rule sint_abs64)
  from nmin have n: "sint (- num a) = - sint (num a)" by (rule sint_neg)
  have "exact \<lparr>num = abs64 (num a), denom = denom a\<rparr> = \<bar>exact a\<bar>"
    unfolding exact_def rational.select_convs a using pos by (rule ratio_abs)
  moreover have "exact \<lparr>num = - num a, denom = denom a\<rparr> = - exact a"
    unfolding exact_def rational.select_convs n by simp
  ultimately show ?thesis ..
qed

section \<open>Binary operators on a copy\<close>

lemma enter_None: "enter left s None = left"
  by (simp add: enter_def rational_copy_id)

lemma enter_Some: "enter left s (Some x) = s x"
  by (simp add: enter_def)

lemma leave_returned: "leave (None, (enter left s)(None := r)) = (Inr r, s)"
  by (simp add: leave_def enter_def rational_copy_id)

lemma leave_failed: "leave (Some e, enter left s) = (Inl e, s)"
  by (simp add: leave_def enter_def)

lemma call_simplify_this_only: "p \<noteq> this \<Longrightarrow> snd (call_simplify this s) p = s p"
  by (simp add: call_simplify_def split: sum.splits)

lemma leave_caller: "snd (leave res) x = snd res (Some x)"
  by (cases res) (simp add: leave_def split: option.splits)

lemma add_frame: "snd (op_add left right s) = s"
proof
  fix x
  show "snd (op_add left right s) x = s x"
    by (simp add: op_add_def leave_caller op_add_assign_eq call_simplify_this_only enter_Some)
qed

lemma sub_frame: "snd (op_sub left right s) = s"
proof
  fix x
  show "snd (op_sub left right s) x = s x"
    by (simp add: op_sub_def leave_caller op_sub_assign_eq call_simplify_this_only enter_Some)
qed

lemma mul_frame: "snd (op_mul left right s) = s"
proof
  fix x
  show "snd (op_mul left right s) x = s x"
    by (simp add: op_mul_def leave_caller op_mul_assign_eq call_simplify_this_only enter_Some)
qed

lemma div_frame: "snd (op_div left right s) = s"
proof
  fix x
  show "snd (op_div left right s) x = s x"
    by (simp add: op_div_def leave_caller op_div_assign_def Let_def call_simplify_this_only enter_Some)
qed





lemma div_by_zero_throws:
  assumes "num (s other) = 0"
  shows "op_div_assign this other s = (Some (invalid_argument ''Cannot divide by zero.''), s)"
    and "op_div left other s = (Inl (invalid_argument ''Cannot divide by zero.''), s)"
  using assms by (simp_all add: op_div_assign_def op_div_def leave_failed enter_Some)

lemma leave_call_simplify:
  "leave (call_simplify None ((enter left s)(None := r))) =
     (case simplify r of Inl e \<Rightarrow> (Inl e, s) | Inr r' \<Rightarrow> (Inr r', s))"
proof (cases "simplify r")
  case (Inl e)
  have "(\<lambda>x. ((enter left s)(None := r)) (Some x)) = s" by (simp add: enter_def)
  with Inl show ?thesis by (simp add: call_simplify_update leave_def)
next
  case (Inr r')
  then show ?thesis by (simp add: call_simplify_update leave_returned)
qed

lemma add_on_copy:
  "op_add (s a) b s =
     (case op_add_assign a b s of (None, s') \<Rightarrow> (Inr (s' a), s) | (Some e, s') \<Rightarrow> (Inl e, s))"
proof -
  let ?r = "\<lparr>num = num (s a) * denom (s b) + denom (s a) * num (s b), denom = denom (s a) * denom (s b)\<rparr>"
  have l: "op_add (s a) b s = (case simplify ?r of Inl e \<Rightarrow> (Inl e, s) | Inr r' \<Rightarrow> (Inr r', s))"
    by (simp only: op_add_def op_add_assign_eq enter_None enter_Some leave_call_simplify)
  have r: "op_add_assign a b s =
      (case simplify ?r of Inl e \<Rightarrow> (Some e, s(a := ?r)) | Inr r' \<Rightarrow> (None, s(a := r')))"
    by (simp only: op_add_assign_eq call_simplify_update)
  show ?thesis unfolding l r by (simp split: sum.splits)
qed

lemma sub_on_copy:
  "op_sub (s a) b s =
     (case op_sub_assign a b s of (None, s') \<Rightarrow> (Inr (s' a), s) | (Some e, s') \<Rightarrow> (Inl e, s))"
proof -
  let ?r = "\<lparr>num = num (s a) * denom (s b) - denom (s a) * num (s b), denom = denom (s a) * denom (s b)\<rparr>"
  have l: "op_sub (s a) b s = (case simplify ?r of Inl e \<Rightarrow> (Inl e, s) | Inr r' \<Rightarrow> (Inr r', s))"
    by (simp only: op_sub_def op_sub_assign_eq enter_None enter_Some leave_call_simplify)
  have r: "op_sub_assign a b s =
      (case simplify ?r of Inl e \<Rightarrow> (Some e, s(a := ?r)) | Inr r' \<Rightarrow> (None, s(a := r')))"
    by (simp only: op_sub_assign_eq call_simplify_update)
  show ?thesis unfolding l r by (simp split: sum.splits)
qed

lemma mul_on_copy:
  "op_mul (s a) b s =
     (case op_mul_assign a b s of (None, s') \<Rightarrow> (Inr (s' a), s) | (Some e, s') \<Rightarrow> (Inl e, s))"
proof -
  let ?r = "\<lparr>num = num (s a) * num (s b), denom = denom (s a) * denom (s b)\<rparr>"
  have l: "op_mul (s a) b s = (case simplify ?r of Inl e \<Rightarrow> (Inl e, s) | Inr r' \<Rightarrow> (Inr r', s))"
    by (simp only: op_mul_def op_mul_assign_eq enter_None enter_Some leave_call_simplify)
  have r: "op_mul_assign a b s =
      (case simplify ?r of Inl e \<Rightarrow> (Some e, s(a := ?r)) | Inr r' \<Rightarrow> (None, s(a := r')))"
    by (simp only: op_mul_assign_eq call_simplify_update)
  show ?thesis unfolding l r by (simp split: sum.splits)
qed

lemma div_on_copy:
  assumes "a \<noteq> b"
  shows "op_div (s a) b s =
     (case op_div_assign a b s of (None, s') \<Rightarrow> (Inr (s' a), s) | (Some e, s') \<Rightarrow> (Inl e, s))"
proof (cases "num (s b) = 0")
  case True
  then show ?thesis by (simp add: div_by_zero_throws)
next
  case False
  let ?r = "\<lparr>num = num (s a) * denom (s b), denom = denom (s a) * num (s b)\<rparr>"
  from False have nz: "num (enter (s a) s (Some b)) \<noteq> 0" by (simp only: enter_Some not_False_eq_True)
  have "op_div (s a) b s = leave (call_simplify None ((enter (s a) s)(None := ?r)))"
    unfolding op_div_def using nz by (simp add: op_div_assign_eq enter_None enter_Some)
  then have l: "op_div (s a) b s = (case simplify ?r of Inl e \<Rightarrow> (Inl e, s) | Inr r' \<Rightarrow> (Inr r', s))"
    by (simp only: leave_call_simplify)
  have r: "op_div_assign a b s =
      (case simplify ?r of Inl e \<Rightarrow> (Some e, s(a := ?r)) | Inr r' \<Rightarrow> (None, s(a := r')))"
  proof -
    from assms False have "op_div_assign a b s = call_simplify a (s(a := ?r))"
      by (rule op_div_assign_eq)
    then show ?thesis by (simp only: call_simplify_update)
  qed
  show ?thesis unfolding l r by (simp split: sum.splits)
qed

section \<open>Failures\<close>

text \<open>
  C3: for every object \<open>a\<close> and every divisor \<open>b\<close> whose numerator is \<open>0\<close>, whatever
  its denominator, \<^verbatim>\<open>a /= b\<close> and \<^verbatim>\<open>a / b\<close> end with the exception
  \<^verbatim>\<open>invalid_argument("Cannot divide by zero.")\<close>, and the store is the one before
  the call: \<open>a\<close> is not modified.
\<close>

theorem division_by_zero:
  assumes "num (s other) = 0"
  shows "op_div_assign this other s = (Some (invalid_argument ''Cannot divide by zero.''), s) \<and>
    op_div left other s = (Inl (invalid_argument ''Cannot divide by zero.''), s)"
  using assms by (simp add: div_by_zero_throws)

theorem division_by_zero_witness:
  "num (two (demo False) \<lparr>num = 0, denom = 5\<rparr> True) = 0 \<and>
   op_div_assign False True (two (demo False) \<lparr>num = 0, denom = 5\<rparr>)
     = (Some (invalid_argument ''Cannot divide by zero.''), two (demo False) \<lparr>num = 0, denom = 5\<rparr>) \<and>
   op_div (demo True) True (two (demo False) \<lparr>num = 0, denom = 5\<rparr>)
     = (Inl (invalid_argument ''Cannot divide by zero.''), two (demo False) \<lparr>num = 0, denom = 5\<rparr>)"
proof -
  have h: "num (two (demo False) \<lparr>num = 0, denom = 5\<rparr> True) = 0" by (simp add: two_def)
  from h division_by_zero [of "two (demo False) \<lparr>num = 0, denom = 5\<rparr>" True False "demo True"]
  show ?thesis by simp
qed

text \<open>
  C4: for every integer \<open>n\<close>, constructing \<^verbatim>\<open>rational(n, 0)\<close> ends with the exception
  \<^verbatim>\<open>invalid_argument("Denominator must be non-zero.")\<close>; the result carries no
  object.
\<close>

theorem zero_denominator_construction:
  "rational_ctor n 0 = Inl (invalid_argument ''Denominator must be non-zero.'')"
  by (simp add: rational_ctor_def)

section \<open>Value semantics of the binary operators\<close>

text \<open>
  C9: evaluating \<^verbatim>\<open>a op b\<close> for \<^verbatim>\<open>op\<close> one of \<^verbatim>\<open>+\<close>, \<^verbatim>\<open>-\<close>, \<^verbatim>\<open>*\<close>, \<^verbatim>\<open>/\<close> leaves the
  caller's store as it was, so both operands keep their fields, whether the call
  returns or throws.  The value returned is the one that the compound operator
  leaves in its left operand, computed on a copy (for \<^verbatim>\<open>/\<close>, when the two operands
  are different objects).
\<close>

theorem binary_operators_keep_operands:
  "snd (op_add left right s) = s \<and> snd (op_sub left right s) = s \<and>
   snd (op_mul left right s) = s \<and> snd (op_div left right s) = s \<and>
   op_add (s a) b s =
     (case op_add_assign a b s of (None, s') \<Rightarrow> (Inr (s' a), s) | (Some e, s') \<Rightarrow> (Inl e, s)) \<and>
   op_sub (s a) b s =
     (case op_sub_assign a b s of (None, s') \<Rightarrow> (Inr (s' a), s) | (Some e, s') \<Rightarrow> (Inl e, s)) \<and>
   op_mul (s a) b s =
     (case op_mul_assign a b s of (None, s') \<Rightarrow> (Inr (s' a), s) | (Some e, s') \<Rightarrow> (Inl e, s)) \<and>
   (a \<noteq> b \<longrightarrow> op_div (s a) b s =
     (case op_div_assign a b s of (None, s') \<Rightarrow> (Inr (s' a), s) | (Some e, s') \<Rightarrow> (Inl e, s)))"
  by (intro conjI impI add_frame sub_frame mul_frame div_frame
      add_on_copy sub_on_copy mul_on_copy div_on_copy)

theorem binary_operators_keep_operands_witness:
  "False \<noteq> True \<and>
   snd (op_div (demo False) True demo) = demo \<and>
   op_div (demo False) True demo =
     (case op_div_assign False True demo of
        (None, s') \<Rightarrow> (Inr (s' False), demo) | (Some e, s') \<Rightarrow> (Inl e, demo))"
proof -
  have h: "False \<noteq> True" by simp
  from binary_operators_keep_operands [of "demo False" True demo False True] h
  show ?thesis by blast
qed

section \<open>More on the operators\<close>

lemma cross_fits_sym: "cross_fits a b \<longleftrightarrow> cross_fits b a"
  by (auto simp add: cross_fits_def mult.commute)

lemma trichotomy:
  "(op_lt a b \<and> \<not> op_eq a b \<and> \<not> op_gt a b) \<or>
   (\<not> op_lt a b \<and> op_eq a b \<and> \<not> op_gt a b) \<or>
   (\<not> op_lt a b \<and> \<not> op_eq a b \<and> op_gt a b)"
  unfolding op_lt_def op_eq_def op_gt_def Let_def
  by (auto simp add: mult.commute)

lemma order_exact:
  assumes a: "invariant a" and b: "invariant b" and f: "cross_fits a b"
  shows "(op_lt a b \<longleftrightarrow> exact a < exact b) \<and> (op_eq a b \<longleftrightarrow> exact a = exact b) \<and>
    (op_gt a b \<longleftrightarrow> exact b < exact a) \<and> (op_le a b \<longleftrightarrow> exact a \<le> exact b) \<and>
    (op_ge a b \<longleftrightarrow> exact b \<le> exact a) \<and> (op_ne a b \<longleftrightarrow> exact a \<noteq> exact b)"
proof -
  from f have f': "cross_fits b a" by (simp only: cross_fits_sym)
  have lt: "op_lt a b \<longleftrightarrow> exact a < exact b" using a b f by (rule op_lt_exact)
  have gt: "op_lt b a \<longleftrightarrow> exact b < exact a" using b a f' by (rule op_lt_exact)
  have eq: "op_eq a b \<longleftrightarrow> exact a = exact b" using a b f by (rule op_eq_exact)
  show ?thesis
    unfolding op_gt_def op_le_def op_ge_def op_ne_def lt gt eq by auto
qed

lemma ratio_self:
  assumes "0 < (d :: int)" and "n \<noteq> 0"
  shows "(of_int (n * d) :: rat) / of_int (d * (n * d)) = 1 / of_int d"
  using assms by simp

lemma div_assign_self:
  assumes inv: "invariant (s this)" and nz: "num (s this) \<noteq> 0"
    and f1: "abs_fits (sint (num (s this)) * sint (denom (s this)))"
    and f2: "abs_fits (sint (denom (s this)) * (sint (num (s this)) * sint (denom (s this))))"
  shows "\<exists>r. op_div_assign this this s = (None, s(this := r)) \<and> invariant r \<and>
    exact r = 1 / of_int (sint (denom (s this)))"
proof -
  let ?n = "sint (num (s this))" and ?d = "sint (denom (s this))"
  let ?r = "\<lparr>num = num (s this) * denom (s this),
            denom = denom (s this) * (num (s this) * denom (s this))\<rparr>"
  from inv have pos: "0 < ?d" by (rule invariant_pos)
  from nz have n0: "?n \<noteq> 0" by (simp add: sint_eq_0_iff)
  from f1 have p: "sint (num (s this) * denom (s this)) = ?n * ?d"
    by (simp add: abs_fits_imp_fits sint_mult_fits)
  from f2 have "fits (sint (denom (s this)) * sint (num (s this) * denom (s this)))"
    by (simp only: p abs_fits_imp_fits)
  then have "sint (denom (s this) * (num (s this) * denom (s this)))
      = sint (denom (s this)) * sint (num (s this) * denom (s this))" by (rule sint_mult_fits)
  then have d: "sint (denom ?r) = ?d * (?n * ?d)" by (simp only: p rational.select_convs)
  from p have n: "sint (num ?r) = ?n * ?d" by (simp only: rational.select_convs)
  from pos n0 have d0: "?d * (?n * ?d) \<noteq> 0" by simp
  from f2 have dmin: "?d * (?n * ?d) \<noteq> - (2 ^ 63)" by (rule abs_fits_not_min)
  from f1 have "?n * ?d \<noteq> - (2 ^ 63)" by (rule abs_fits_not_min)
  then have nmin: "?n * ?d \<noteq> - (2 ^ 63) \<or> 0 < ?d * (?n * ?d)" ..
  from n d d0 dmin nmin obtain r' where r': "simplify ?r = Inr r'" "invariant r'"
    "exact r' = of_int (?n * ?d) / of_int (?d * (?n * ?d))"
    using simplify_of_ints [of ?r] by blast
  have "(of_int (?n * ?d) :: rat) / of_int (?d * (?n * ?d)) = 1 / of_int ?d"
    using pos n0 by (rule ratio_self)
  with r'(3) have "exact r' = 1 / of_int ?d" by (rule trans)
  moreover have "op_div_assign this this s = (None, s(this := r'))"
    using nz by (simp add: op_div_assign_self call_simplify_update r'(1))
  ultimately show ?thesis using r'(2) by blast
qed

section \<open>The normalization invariant\<close>

text \<open>
  C1 (normalization invariant, within the range of 64-bit arithmetic): the value that
  a constructor returns or that a mutating operator leaves in \<^verbatim>\<open>*this\<close> has a
  strictly positive denominator and \<open>gcd(|numerator|, denominator) = 1\<close>, namely
  \<^item> the pair constructor for every non-zero \<open>d\<close>, except when \<open>d\<close> is \<^verbatim>\<open>INT64_MIN\<close>
    and \<open>n\<close> is odd; and \<open>(0, d)\<close> gives \<open>0/1\<close> for every non-zero \<open>d\<close>;
  \<^item> the integer constructor, the copy constructor and the assignment (of a
    value that satisfies the invariant);
  \<^item> \<^verbatim>\<open>+=\<close>, \<^verbatim>\<open>-=\<close>, \<^verbatim>\<open>*=\<close>, \<^verbatim>\<open>/=\<close> on operands that satisfy the invariant, when the
    integers computed on the way are representable (for \<^verbatim>\<open>/=\<close>: the divisor's
    numerator is not zero and the products are not \<^verbatim>\<open>INT64_MIN\<close> either);
  \<^item> \<^verbatim>\<open>++\<close> and \<^verbatim>\<open>--\<close>, prefix and postfix, when numerator plus (minus) denominator
    is representable.
\<close>

theorem normalization_invariant:
  "(d \<noteq> 0 \<and> \<not> (d = INT64_MIN \<and> odd (sint n)) \<longrightarrow>
      (\<exists>r. rational_ctor n d = Inr r \<and> invariant r)) \<and>
   (d \<noteq> 0 \<longrightarrow> rational_ctor 0 d = Inr \<lparr>num = 0, denom = 1\<rparr>) \<and>
   invariant (rational_of_value v) \<and>
   (invariant a \<longrightarrow> invariant (rational_copy a)) \<and>
   (invariant (s other) \<longrightarrow> invariant (op_assign this other s this)) \<and>
   (invariant (s this) \<and> invariant (s other) \<and> add_fits (s this) (s other) \<longrightarrow>
      (\<exists>r. op_add_assign this other s = (None, s(this := r)) \<and> invariant r)) \<and>
   (invariant (s this) \<and> invariant (s other) \<and> sub_fits (s this) (s other) \<longrightarrow>
      (\<exists>r. op_sub_assign this other s = (None, s(this := r)) \<and> invariant r)) \<and>
   (invariant (s this) \<and> invariant (s other) \<and> mul_fits (s this) (s other) \<longrightarrow>
      (\<exists>r. op_mul_assign this other s = (None, s(this := r)) \<and> invariant r)) \<and>
   (invariant (s this) \<and> invariant (s other) \<and> this \<noteq> other \<and> num (s other) \<noteq> 0 \<and>
    cross_fits (s this) (s other) \<longrightarrow>
      (\<exists>r. op_div_assign this other s = (None, s(this := r)) \<and> invariant r)) \<and>
   (invariant (s this) \<and> num (s this) \<noteq> 0 \<and>
    abs_fits (sint (num (s this)) * sint (denom (s this))) \<and>
    abs_fits (sint (denom (s this)) * (sint (num (s this)) * sint (denom (s this)))) \<longrightarrow>
      (\<exists>r. op_div_assign this this s = (None, s(this := r)) \<and> invariant r)) \<and>
   (invariant (s this) \<and> fits (sint (num (s this)) + sint (denom (s this))) \<longrightarrow>
      invariant (op_pre_inc this s this) \<and> invariant (snd (op_post_inc this s) this)) \<and>
   (invariant (s this) \<and> fits (sint (num (s this)) - sint (denom (s this))) \<longrightarrow>
      invariant (op_pre_dec this s this) \<and> invariant (snd (op_post_dec this s) this))"
proof (intro conjI impI)
  show "\<exists>r. rational_ctor n d = Inr r \<and> invariant r"
    if "d \<noteq> 0 \<and> \<not> (d = INT64_MIN \<and> odd (sint n))"
    using that by (intro ctor_invariant) simp_all
  show "rational_ctor 0 d = Inr \<lparr>num = 0, denom = 1\<rparr>" if "d \<noteq> 0"
    using that by (rule ctor_zero)
  show "invariant (rational_of_value v)"
    by (simp add: invariant_def rational_of_value_def numerator_def denominator_def zero_sless_iff)
  show "invariant (rational_copy a)" if "invariant a"
    using that by (simp only: rational_copy_id)
  show "invariant (op_assign this other s this)" if "invariant (s other)"
    using that by (simp only: op_assign_this)
  show "\<exists>r. op_add_assign this other s = (None, s(this := r)) \<and> invariant r"
    if "invariant (s this) \<and> invariant (s other) \<and> add_fits (s this) (s other)"
    using that add_assign_exact [of s this other] by blast
  show "\<exists>r. op_sub_assign this other s = (None, s(this := r)) \<and> invariant r"
    if "invariant (s this) \<and> invariant (s other) \<and> sub_fits (s this) (s other)"
    using that sub_assign_exact [of s this other] by blast
  show "\<exists>r. op_mul_assign this other s = (None, s(this := r)) \<and> invariant r"
    if "invariant (s this) \<and> invariant (s other) \<and> mul_fits (s this) (s other)"
    using that mul_assign_exact [of s this other] by blast
  show "\<exists>r. op_div_assign this other s = (None, s(this := r)) \<and> invariant r"
    if "invariant (s this) \<and> invariant (s other) \<and> this \<noteq> other \<and> num (s other) \<noteq> 0 \<and>
      cross_fits (s this) (s other)"
    using that div_assign_exact [of s this other] by blast
  show "\<exists>r. op_div_assign this this s = (None, s(this := r)) \<and> invariant r"
    if "invariant (s this) \<and> num (s this) \<noteq> 0 \<and>
      abs_fits (sint (num (s this)) * sint (denom (s this))) \<and>
      abs_fits (sint (denom (s this)) * (sint (num (s this)) * sint (denom (s this))))"
    using that div_assign_self [of s this] by blast
  show "invariant (op_pre_inc this s this)"
    if "invariant (s this) \<and> fits (sint (num (s this)) + sint (denom (s this)))"
    using that pre_inc_exact [of s this] by blast
  show "invariant (snd (op_post_inc this s) this)"
    if "invariant (s this) \<and> fits (sint (num (s this)) + sint (denom (s this)))"
    using that pre_inc_exact [of s this] by (simp add: op_post_inc_def)
  show "invariant (op_pre_dec this s this)"
    if "invariant (s this) \<and> fits (sint (num (s this)) - sint (denom (s this)))"
    using that pre_dec_exact [of s this] by blast
  show "invariant (snd (op_post_dec this s) this)"
    if "invariant (s this) \<and> fits (sint (num (s this)) - sint (denom (s this)))"
    using that pre_dec_exact [of s this] by (simp add: op_post_dec_def)
qed

text \<open>The operands of the tests satisfy every hypothesis of C1.\<close>

theorem normalization_invariant_witness:
  "(- 12 :: integer) \<noteq> 0 \<and> \<not> ((- 12 :: integer) = INT64_MIN \<and> odd (sint (- 18 :: integer))) \<and>
   (\<exists>r. rational_ctor (- 18) (- 12) = Inr r \<and> invariant r) \<and>
   rational_ctor 0 (- 12) = Inr \<lparr>num = 0, denom = 1\<rparr> \<and>
   invariant (demo False) \<and> invariant (demo True) \<and> False \<noteq> True \<and>
   num (demo True) \<noteq> 0 \<and> num (demo False) \<noteq> 0 \<and>
   add_fits (demo False) (demo True) \<and> sub_fits (demo False) (demo True) \<and>
   mul_fits (demo False) (demo True) \<and> cross_fits (demo False) (demo True) \<and>
   abs_fits (sint (num (demo False)) * sint (denom (demo False))) \<and>
   abs_fits (sint (denom (demo False)) * (sint (num (demo False)) * sint (denom (demo False)))) \<and>
   fits (sint (num (demo False)) + sint (denom (demo False))) \<and>
   fits (sint (num (demo False)) - sint (denom (demo False))) \<and>
   invariant (rational_copy (demo False)) \<and>
   invariant (op_assign False True demo False) \<and>
   (\<exists>r. op_add_assign False True demo = (None, demo(False := r)) \<and> invariant r) \<and>
   (\<exists>r. op_sub_assign False True demo = (None, demo(False := r)) \<and> invariant r) \<and>
   (\<exists>r. op_mul_assign False True demo = (None, demo(False := r)) \<and> invariant r) \<and>
   (\<exists>r. op_div_assign False True demo = (None, demo(False := r)) \<and> invariant r) \<and>
   (\<exists>r. op_div_assign False False demo = (None, demo(False := r)) \<and> invariant r) \<and>
   invariant (op_pre_inc False demo False) \<and> invariant (snd (op_post_inc False demo) False) \<and>
   invariant (op_pre_dec False demo False) \<and> invariant (snd (op_post_dec False demo) False)"
proof -
  have c: "(- 12 :: integer) \<noteq> 0 \<and> \<not> ((- 12 :: integer) = INT64_MIN \<and> odd (sint (- 18 :: integer)))"
    "(- 12 :: integer) \<noteq> 0" by (simp_all add: INT64_MIN_def)
  have h: "invariant (demo False)" "invariant (demo True)" "False \<noteq> True"
    "num (demo True) \<noteq> 0" "num (demo False) \<noteq> 0"
    "add_fits (demo False) (demo True)" "sub_fits (demo False) (demo True)"
    "mul_fits (demo False) (demo True)" "cross_fits (demo False) (demo True)"
    "abs_fits (sint (num (demo False)) * sint (denom (demo False)))"
    "abs_fits (sint (denom (demo False)) * (sint (num (demo False)) * sint (denom (demo False))))"
    "fits (sint (num (demo False)) + sint (denom (demo False)))"
    "fits (sint (num (demo False)) - sint (denom (demo False)))" by code_simp+
  from c h normalization_invariant [of "- 12" "- 18" _ "demo False" demo True False]
  show ?thesis by blast
qed

text \<open>
  Outside these bounds the invariant fails: \<^verbatim>\<open>rational(1, INT64_MIN)\<close> has the negative
  denominator \<^verbatim>\<open>INT64_MIN\<close>; \<open>1/2\<^sup>3\<^sup>2 += 1/2\<^sup>3\<^sup>2\<close> leaves the denominator \<open>0\<close>; and
  \<^verbatim>\<open>++\<close> on \<^verbatim>\<open>INT64_MAX\<close>\<open>/3\<close> leaves a numerator and a denominator with the common
  factor \<open>3\<close>.
\<close>

theorem normalization_overflow_counterexample:
  "INT64_MIN \<noteq> 0 \<and>
   rational_ctor 1 INT64_MIN = Inr \<lparr>num = - 1, denom = INT64_MIN\<rparr> \<and>
   \<not> 0 <s denominator \<lparr>num = - 1, denom = INT64_MIN\<rparr> \<and>
   invariant \<lparr>num = 1, denom = 2 ^ 32\<rparr> \<and>
   fst (op_add_assign False True (two \<lparr>num = 1, denom = 2 ^ 32\<rparr> \<lparr>num = 1, denom = 2 ^ 32\<rparr>)) = None \<and>
   denominator (snd (op_add_assign False True (two \<lparr>num = 1, denom = 2 ^ 32\<rparr> \<lparr>num = 1, denom = 2 ^ 32\<rparr>)) False) = 0 \<and>
   invariant \<lparr>num = INT64_MAX, denom = 3\<rparr> \<and>
   gcd \<bar>sint (numerator (op_pre_inc False (two \<lparr>num = INT64_MAX, denom = 3\<rparr> (demo True)) False))\<bar>
       (sint (denominator (op_pre_inc False (two \<lparr>num = INT64_MAX, denom = 3\<rparr> (demo True)) False))) = 3"
  by code_simp

section \<open>Arithmetic\<close>




text \<open>
  Dividing an object by itself is outside C2: \<^verbatim>\<open>denom *= other.num\<close> reads the
  numerator that \<^verbatim>\<open>num *= other.denom\<close> has just overwritten, so \<^verbatim>\<open>a /= a\<close> leaves
  \<open>1/denominator\<close>, while \<^verbatim>\<open>a / a\<close>, which works on a copy, returns \<open>1/1\<close>.
\<close>

lemma self_division_aliasing:
  "invariant (demo False) \<and>
   fst (op_div_assign False False demo) = None \<and>
   snd (op_div_assign False False demo) False = \<lparr>num = 1, denom = 2\<rparr> \<and>
   fst (op_div (demo False) False demo) = Inr \<lparr>num = 1, denom = 1\<rparr>"
  by code_simp

section \<open>Increment, decrement and the unary operators\<close>

text \<open>
  C7 (increment and decrement): the postfix forms return the value before the call
  and leave the state of the prefix forms.  The prefix forms add (subtract)
  \<open>|denominator|\<close> to the numerator and write nothing else.  When the object
  satisfies the invariant and numerator plus (minus) denominator is
  representable, the new state is in lowest terms with a positive denominator
  and its value is the old value plus (minus) one.  After \<^verbatim>\<open>rational(-4, 7)++\<close> the
  value returned is \<open>-4/7\<close> and the state \<open>3/7\<close>; after \<^verbatim>\<open>--\<close>, \<open>-11/7\<close>.
\<close>

theorem increment_decrement:
  "fst (op_post_inc this s) = s this \<and> snd (op_post_inc this s) = op_pre_inc this s \<and>
   fst (op_post_dec this s) = s this \<and> snd (op_post_dec this s) = op_pre_dec this s \<and>
   op_pre_inc this s =
     s(this := \<lparr>num = num (s this) + abs64 (denom (s this)), denom = denom (s this)\<rparr>) \<and>
   op_pre_dec this s =
     s(this := \<lparr>num = num (s this) - abs64 (denom (s this)), denom = denom (s this)\<rparr>) \<and>
   (invariant (s this) \<and> fits (sint (num (s this)) + sint (denom (s this))) \<longrightarrow>
      invariant (op_pre_inc this s this) \<and> exact (op_pre_inc this s this) = exact (s this) + 1) \<and>
   (invariant (s this) \<and> fits (sint (num (s this)) - sint (denom (s this))) \<longrightarrow>
      invariant (op_pre_dec this s this) \<and> exact (op_pre_dec this s this) = exact (s this) - 1) \<and>
   rational_ctor (- 4) 7 = Inr \<lparr>num = - 4, denom = 7\<rparr> \<and>
   fst (op_post_inc False (two \<lparr>num = - 4, denom = 7\<rparr> (demo True))) = \<lparr>num = - 4, denom = 7\<rparr> \<and>
   snd (op_post_inc False (two \<lparr>num = - 4, denom = 7\<rparr> (demo True))) False = \<lparr>num = 3, denom = 7\<rparr> \<and>
   fst (op_post_dec False (two \<lparr>num = - 4, denom = 7\<rparr> (demo True))) = \<lparr>num = - 4, denom = 7\<rparr> \<and>
   snd (op_post_dec False (two \<lparr>num = - 4, denom = 7\<rparr> (demo True))) False = \<lparr>num = - 11, denom = 7\<rparr>"
proof (intro conjI impI)
  show "fst (op_post_inc this s) = s this" by (simp add: op_post_inc_def rational_copy_id)
  show "snd (op_post_inc this s) = op_pre_inc this s" by (simp add: op_post_inc_def)
  show "fst (op_post_dec this s) = s this" by (simp add: op_post_dec_def rational_copy_id)
  show "snd (op_post_dec this s) = op_pre_dec this s" by (simp add: op_post_dec_def)
  show "op_pre_inc this s =
     s(this := \<lparr>num = num (s this) + abs64 (denom (s this)), denom = denom (s this)\<rparr>)"
    by (cases "s this") (simp add: op_pre_inc_def)
  show "op_pre_dec this s =
     s(this := \<lparr>num = num (s this) - abs64 (denom (s this)), denom = denom (s this)\<rparr>)"
    by (cases "s this") (simp add: op_pre_dec_def)
  show "invariant (op_pre_inc this s this)"
    if "invariant (s this) \<and> fits (sint (num (s this)) + sint (denom (s this)))"
    using that pre_inc_exact [of s this] by blast
  show "exact (op_pre_inc this s this) = exact (s this) + 1"
    if "invariant (s this) \<and> fits (sint (num (s this)) + sint (denom (s this)))"
    using that pre_inc_exact [of s this] by blast
  show "invariant (op_pre_dec this s this)"
    if "invariant (s this) \<and> fits (sint (num (s this)) - sint (denom (s this)))"
    using that pre_dec_exact [of s this] by blast
  show "exact (op_pre_dec this s this) = exact (s this) - 1"
    if "invariant (s this) \<and> fits (sint (num (s this)) - sint (denom (s this)))"
    using that pre_dec_exact [of s this] by blast
  show "rational_ctor (- 4) 7 = Inr \<lparr>num = - 4, denom = 7\<rparr>" by code_simp
  show "fst (op_post_inc False (two \<lparr>num = - 4, denom = 7\<rparr> (demo True))) = \<lparr>num = - 4, denom = 7\<rparr>"
    by code_simp
  show "snd (op_post_inc False (two \<lparr>num = - 4, denom = 7\<rparr> (demo True))) False = \<lparr>num = 3, denom = 7\<rparr>"
    by code_simp
  show "fst (op_post_dec False (two \<lparr>num = - 4, denom = 7\<rparr> (demo True))) = \<lparr>num = - 4, denom = 7\<rparr>"
    by code_simp
  show "snd (op_post_dec False (two \<lparr>num = - 4, denom = 7\<rparr> (demo True))) False = \<lparr>num = - 11, denom = 7\<rparr>"
    by code_simp
qed

text \<open>The value \<open>-1/2\<close> satisfies the hypotheses of C7.\<close>

theorem increment_decrement_witness:
  "invariant (demo False) \<and>
   fits (sint (num (demo False)) + sint (denom (demo False))) \<and>
   fits (sint (num (demo False)) - sint (denom (demo False))) \<and>
   invariant (op_pre_inc False demo False) \<and>
   exact (op_pre_inc False demo False) = exact (demo False) + 1 \<and>
   invariant (op_pre_dec False demo False) \<and>
   exact (op_pre_dec False demo False) = exact (demo False) - 1"
proof -
  have h: "invariant (demo False)"
    "fits (sint (num (demo False)) + sint (denom (demo False)))"
    "fits (sint (num (demo False)) - sint (denom (demo False)))" by code_simp+
  from h increment_decrement [of False demo] show ?thesis by blast
qed

text \<open>
  At the upper end of the range the sum wraps around: \<^verbatim>\<open>++\<close> on \<^verbatim>\<open>INT64_MAX\<close>\<open>/1\<close> does
  not add one, and on \<^verbatim>\<open>INT64_MAX\<close>\<open>/3\<close> it leaves a fraction that is not in lowest
  terms.
\<close>

theorem increment_overflow_counterexample:
  "invariant (rational_of_value INT64_MAX) \<and>
   exact (snd (op_post_inc False (two (rational_of_value INT64_MAX) (demo True))) False)
     \<noteq> exact (rational_of_value INT64_MAX) + 1 \<and>
   rational_ctor INT64_MAX 3 = Inr \<lparr>num = INT64_MAX, denom = 3\<rparr> \<and>
   invariant \<lparr>num = INT64_MAX, denom = 3\<rparr> \<and>
   \<not> invariant (op_pre_inc False (two \<lparr>num = INT64_MAX, denom = 3\<rparr> (demo True)) False)"
  by code_simp

text \<open>
  C8 (unary operators): on a value that satisfies the invariant, unary plus returns
  \<^verbatim>\<open>std::abs\<close> of the numerator over the same denominator and unary minus the
  negated numerator over the same denominator, both in lowest terms.  When the
  numerator is not \<^verbatim>\<open>INT64_MIN\<close> these are the absolute value and the additive
  inverse.
\<close>

theorem unary_operators:
  assumes "invariant a"
  shows "op_pos a = Inr \<lparr>num = abs64 (num a), denom = denom a\<rparr> \<and>
    op_neg a = Inr \<lparr>num = - num a, denom = denom a\<rparr> \<and>
    invariant \<lparr>num = abs64 (num a), denom = denom a\<rparr> \<and>
    invariant \<lparr>num = - num a, denom = denom a\<rparr> \<and>
    (numerator a \<noteq> INT64_MIN \<longrightarrow>
       sint (abs64 (num a)) = \<bar>sint (num a)\<bar> \<and> sint (- num a) = - sint (num a) \<and>
       exact \<lparr>num = abs64 (num a), denom = denom a\<rparr> = \<bar>exact a\<bar> \<and>
       exact \<lparr>num = - num a, denom = denom a\<rparr> = - exact a)"
  using op_pos_result [OF assms] op_neg_result [OF assms] unary_exact [OF assms]
  by (simp add: numerator_def sint_abs64 sint_neg)

text \<open>The operand \<open>-8/5\<close> of the tests satisfies the hypotheses of C8.\<close>

theorem unary_operators_witness:
  "invariant \<lparr>num = - 8, denom = 5\<rparr> \<and> numerator \<lparr>num = - 8, denom = 5\<rparr> \<noteq> INT64_MIN \<and>
   abs64 (num \<lparr>num = - 8, denom = 5 :: integer\<rparr>) = 8 \<and>
   op_pos \<lparr>num = - 8, denom = 5\<rparr>
     = Inr \<lparr>num = abs64 (num \<lparr>num = - 8, denom = 5 :: integer\<rparr>), denom = denom \<lparr>num = - 8 :: integer, denom = 5\<rparr>\<rparr> \<and>
   op_neg \<lparr>num = - 8, denom = 5\<rparr>
     = Inr \<lparr>num = - num \<lparr>num = - 8, denom = 5 :: integer\<rparr>, denom = denom \<lparr>num = - 8 :: integer, denom = 5\<rparr>\<rparr> \<and>
   exact \<lparr>num = - num \<lparr>num = - 8, denom = 5 :: integer\<rparr>, denom = denom \<lparr>num = - 8 :: integer, denom = 5\<rparr>\<rparr>
     = - exact \<lparr>num = - 8, denom = 5\<rparr>"
proof -
  have h: "invariant \<lparr>num = - 8, denom = 5\<rparr>"
    "numerator \<lparr>num = - 8, denom = 5\<rparr> \<noteq> INT64_MIN"
    "abs64 (num \<lparr>num = - 8, denom = 5 :: integer\<rparr>) = 8" by code_simp+
  from h unary_operators [of "\<lparr>num = - 8, denom = 5\<rparr>"] show ?thesis by blast
qed

text \<open>
  \<^verbatim>\<open>rational(INT64_MIN)\<close> is its own unary plus and its own unary minus: neither the
  absolute value nor the additive inverse.
\<close>

theorem unary_overflow_counterexample:
  "invariant (rational_of_value INT64_MIN) \<and>
   op_pos (rational_of_value INT64_MIN) = Inr (rational_of_value INT64_MIN) \<and>
   exact (rational_of_value INT64_MIN) \<noteq> \<bar>exact (rational_of_value INT64_MIN)\<bar> \<and>
   op_neg (rational_of_value INT64_MIN) = Inr (rational_of_value INT64_MIN) \<and>
   exact (rational_of_value INT64_MIN) \<noteq> - exact (rational_of_value INT64_MIN)"
  by code_simp

section \<open>Comparisons\<close>

text \<open>
  C5 (ordering consistency): for all operands, exactly one of \<^verbatim>\<open>a < b\<close>, \<^verbatim>\<open>a == b\<close>,
  \<^verbatim>\<open>a > b\<close> holds, and \<^verbatim>\<open>a <= b\<close> holds if and only if \<^verbatim>\<open>a > b\<close> does not.  On
  operands that satisfy the invariant and whose cross products are representable
  together with their negations, the six comparisons are those of the exact
  values, hence a total order.
\<close>

theorem ordering_consistency:
  "((op_lt a b \<and> \<not> op_eq a b \<and> \<not> op_gt a b) \<or>
    (\<not> op_lt a b \<and> op_eq a b \<and> \<not> op_gt a b) \<or>
    (\<not> op_lt a b \<and> \<not> op_eq a b \<and> op_gt a b)) \<and>
   (op_le a b \<longleftrightarrow> \<not> op_gt a b) \<and>
   (invariant a \<and> invariant b \<and> cross_fits a b \<longrightarrow>
      (op_lt a b \<longleftrightarrow> exact a < exact b) \<and> (op_eq a b \<longleftrightarrow> exact a = exact b) \<and>
      (op_gt a b \<longleftrightarrow> exact b < exact a) \<and> (op_le a b \<longleftrightarrow> exact a \<le> exact b) \<and>
      (op_ge a b \<longleftrightarrow> exact b \<le> exact a) \<and> (op_ne a b \<longleftrightarrow> exact a \<noteq> exact b))"
proof (intro conjI impI)
  show "(op_lt a b \<and> \<not> op_eq a b \<and> \<not> op_gt a b) \<or>
    (\<not> op_lt a b \<and> op_eq a b \<and> \<not> op_gt a b) \<or>
    (\<not> op_lt a b \<and> \<not> op_eq a b \<and> op_gt a b)" by (rule trichotomy)
  show "op_le a b \<longleftrightarrow> \<not> op_gt a b" by (simp only: op_le_def)
qed (simp_all only: order_exact)

text \<open>The operands \<open>-1/2\<close> and \<open>4/3\<close> satisfy the hypotheses of C5.\<close>

theorem ordering_consistency_witness:
  "invariant (demo False) \<and> invariant (demo True) \<and> cross_fits (demo False) (demo True) \<and>
   op_lt (demo False) (demo True) \<and> exact (demo False) < exact (demo True) \<and>
   \<not> op_eq (demo False) (demo True) \<and> op_le (demo False) (demo True)"
proof -
  have h: "invariant (demo False) \<and> invariant (demo True) \<and> cross_fits (demo False) (demo True)"
    by code_simp
  have v: "exact (demo False) < exact (demo True)" by code_simp
  from h v ordering_consistency [of "demo False" "demo True"] show ?thesis by blast
qed

text \<open>
  When a cross product overflows, \<^verbatim>\<open><\<close> is not transitive:
  \<open>2\<^sup>3\<^sup>2 < 1/2\<^sup>3\<^sup>2\<close> and \<open>1/2\<^sup>3\<^sup>2 < 2\<close> hold, \<open>2\<^sup>3\<^sup>2 < 2\<close> does not.
\<close>

theorem ordering_overflow_counterexample:
  "invariant (rational_of_value (2 ^ 32)) \<and> invariant \<lparr>num = 1, denom = 2 ^ 32\<rparr> \<and>
   invariant (rational_of_value 2) \<and>
   rational_ctor 1 (2 ^ 32) = Inr \<lparr>num = 1, denom = 2 ^ 32\<rparr> \<and>
   op_lt (rational_of_value (2 ^ 32)) \<lparr>num = 1, denom = 2 ^ 32\<rparr> \<and>
   op_lt \<lparr>num = 1, denom = 2 ^ 32\<rparr> (rational_of_value 2) \<and>
   \<not> op_lt (rational_of_value (2 ^ 32)) (rational_of_value 2)"
  by code_simp

text \<open>
  C6 (equality semantics): \<^verbatim>\<open>==\<close> is reflexive and symmetric on all operands, and
  transitive through every value that an object can hold; two objects
  constructed from pairs with non-zero denominators that stand for the same
  number compare equal, as \<^verbatim>\<open>rational(160, -60) == rational(-16, 6)\<close> does.
\<close>

theorem equality_semantics:
  "op_eq a a \<and> (op_eq a b \<longleftrightarrow> op_eq b a) \<and>
   (reachable b \<and> op_eq a b \<and> op_eq b c \<longrightarrow> op_eq a c) \<and>
   (d1 \<noteq> 0 \<and> d2 \<noteq> 0 \<and> sint n1 * sint d2 = sint n2 * sint d1 \<longrightarrow>
      same (rational_ctor n1 d1) (rational_ctor n2 d2)) \<and>
   same (rational_ctor 160 (- 60)) (rational_ctor (- 16) 6)"
proof (intro conjI impI)
  show "op_eq a a" by (rule op_eq_refl)
  show "op_eq a b \<longleftrightarrow> op_eq b a" by (rule op_eq_sym)
  show "op_eq a c" if "reachable b \<and> op_eq a b \<and> op_eq b c"
  proof -
    from that have "odd (num b) \<or> odd (denom b)" by (simp only: reachable_odd)
    with that show ?thesis by (blast intro: op_eq_trans)
  qed
  show "same (rational_ctor n1 d1) (rational_ctor n2 d2)"
    if "d1 \<noteq> 0 \<and> d2 \<noteq> 0 \<and> sint n1 * sint d2 = sint n2 * sint d1"
  proof -
    from that obtain r where "rational_ctor n1 d1 = Inr r" "rational_ctor n2 d2 = Inr r"
      using ctor_same_value [of d1 d2 n1 n2] by blast
    then show ?thesis by (simp add: same_def op_eq_refl)
  qed
  show "same (rational_ctor 160 (- 60)) (rational_ctor (- 16) 6)" by code_simp
qed

text \<open>An instance of each hypothesis of C6.\<close>

theorem equality_semantics_witness:
  "reachable (rational_of_value 3) \<and> op_eq (demo True) (demo True) \<and>
   op_eq \<lparr>num = 3, denom = 1\<rparr> (rational_of_value 3) \<and>
   op_eq (rational_of_value 3) \<lparr>num = 3, denom = 1\<rparr> \<and>
   op_eq \<lparr>num = 3, denom = 1\<rparr> \<lparr>num = 3, denom = 1\<rparr> \<and>
   (6 :: integer) \<noteq> 0 \<and> (- 4 :: integer) \<noteq> 0 \<and> sint (3 :: integer) * sint (- 4 :: integer) = sint (- 2 :: integer) * sint (6 :: integer) \<and>
   same (rational_ctor 3 6) (rational_ctor (- 2) (- 4))"
proof -
  have r: "reachable (rational_of_value 3)" by (rule reachable.of_value)
  have e: "op_eq \<lparr>num = 3, denom = 1\<rparr> (rational_of_value 3)"
    "op_eq (rational_of_value 3) \<lparr>num = 3, denom = 1\<rparr>" by code_simp+
  have h: "(6 :: integer) \<noteq> 0 \<and> (- 4 :: integer) \<noteq> 0 \<and>
    sint (3 :: integer) * sint (- 4 :: integer) = sint (- 2 :: integer) * sint (6 :: integer)" by simp
  from r e h
    equality_semantics [of "\<lparr>num = 3, denom = 1\<rparr>" "rational_of_value 3" "\<lparr>num = 3, denom = 1\<rparr>" 6 "- 4" 3 "- 2"]
    equality_semantics [of "demo True"]
  show ?thesis by blast
qed

text \<open>
  Transitivity needs a middle operand that an object can hold: the pair \<open>0/0\<close>,
  which no constructor or operator produces, compares equal to \<open>1/1\<close> and to
  \<open>2/1\<close>.
\<close>

lemma equality_unreachable_pair:
  "op_eq \<lparr>num = 1, denom = 1\<rparr> \<lparr>num = 0, denom = 0\<rparr> \<and>
   op_eq \<lparr>num = 0, denom = 0\<rparr> \<lparr>num = 2, denom = 1\<rparr> \<and>
   \<not> op_eq \<lparr>num = 1, denom = 1\<rparr> \<lparr>num = 2, denom = 1\<rparr>"
  by code_simp

text \<open>
  C10 (equality and structural identity): for operands that satisfy the invariant
  and whose cross products are representable together with their negations,
  \<^verbatim>\<open>a == b\<close> holds if and only if the numerators are equal and the denominators are
  equal.
\<close>

theorem equality_is_structural:
  assumes "invariant a" and "invariant b" and "cross_fits a b"
  shows "op_eq a b \<longleftrightarrow> numerator a = numerator b \<and> denominator a = denominator b"
proof
  assume "op_eq a b"
  with assms have "exact a = exact b" by (simp only: op_eq_exact)
  with assms(1,2) have "a = b" by (rule invariant_unique)
  then show "numerator a = numerator b \<and> denominator a = denominator b" by simp
next
  assume "numerator a = numerator b \<and> denominator a = denominator b"
  then have "a = b" by (simp add: numerator_def denominator_def)
  then show "op_eq a b" by (simp only: op_eq_refl)
qed

text \<open>One instance with different fields and one with equal fields.\<close>

theorem equality_is_structural_witness:
  "invariant (demo False) \<and> invariant (demo True) \<and> cross_fits (demo False) (demo True) \<and>
   \<not> op_eq (demo False) (demo True) \<and> numerator (demo False) \<noteq> numerator (demo True) \<and>
   invariant (demo True) \<and> cross_fits (demo True) (demo True) \<and> op_eq (demo True) (demo True)"
proof -
  have h: "invariant (demo False)" "invariant (demo True)" "cross_fits (demo False) (demo True)"
    "cross_fits (demo True) (demo True)" by code_simp+
  have n: "numerator (demo False) \<noteq> numerator (demo True)" by code_simp
  from h n equality_is_structural [of "demo False" "demo True"]
    equality_is_structural [of "demo True" "demo True"]
  show ?thesis by blast
qed

text \<open>
  When a cross product overflows, two different values in lowest terms compare
  equal: \<open>2\<^sup>3\<^sup>2/3\<close> and \<open>2\<^sup>3\<^sup>2/(2\<^sup>3\<^sup>2 + 3)\<close>.
\<close>

theorem equality_overflow_counterexample:
  "invariant \<lparr>num = 2 ^ 32, denom = 3\<rparr> \<and> invariant \<lparr>num = 2 ^ 32, denom = 2 ^ 32 + 3\<rparr> \<and>
   rational_ctor (2 ^ 32) 3 = Inr \<lparr>num = 2 ^ 32, denom = 3\<rparr> \<and>
   rational_ctor (2 ^ 32) (2 ^ 32 + 3) = Inr \<lparr>num = 2 ^ 32, denom = 2 ^ 32 + 3\<rparr> \<and>
   op_eq \<lparr>num = 2 ^ 32, denom = 3\<rparr> \<lparr>num = 2 ^ 32, denom = 2 ^ 32 + 3\<rparr> \<and>
   denominator \<lparr>num = 2 ^ 32, denom = 3\<rparr> \<noteq> denominator \<lparr>num = 2 ^ 32, denom = 2 ^ 32 + 3\<rparr>"
  by code_simp

end
